theory Spec2Isabelle
  imports Complex_Main "HOL-Library.AList" "HOL-Library.Char_ord" "HOL-Library.List_Lexorder"
    "HOL-Library.Multiset"
begin

section \<open>Text primitives of the Python runtime\<close>

text \<open>
  Both scripts read whole text files and take them apart with \<open>str.strip\<close>,
  \<open>str.split\<close>, \<open>str.replace\<close>, \<open>re.findall\<close> and \<open>csv.DictReader\<close>.
  A text is a \<open>string\<close>; one \<open>char\<close> stands for one code point below 256, which
  covers every character the input formats use. The limits are those of Python 3.11
  as it starts: \<open>int\<close> refuses more than 4300 digits and the csv module a field of
  more than 131072 characters. Memory, and I/O failures on a file that exists, are
  outside the model.
\<close>

abbreviation TAB :: char where "TAB \<equiv> CHR 0x09"
abbreviation NL :: char where "NL \<equiv> CHR 0x0A"
abbreviation CR :: char where "CR \<equiv> CHR 0x0D"

text \<open>The characters \<open>str.isspace\<close> and the regex class \<open>\s\<close> accept, below 256.\<close>

definition isspace :: "char \<Rightarrow> bool" where
  "isspace c \<longleftrightarrow> c \<in> set [CHR 0x09, CHR 0x0A, CHR 0x0B, CHR 0x0C, CHR 0x0D,
                            CHR 0x1C, CHR 0x1D, CHR 0x1E, CHR 0x1F, CHR 0x20, CHR 0x85, CHR 0xA0]"

definition isdigit :: "char \<Rightarrow> bool" where
  "isdigit c \<longleftrightarrow> c \<in> set ''0123456789''"

text \<open>\<open>s.strip()\<close>: leading and trailing whitespace removed.\<close>

definition strip :: "string \<Rightarrow> string" where
  "strip s = rev (dropWhile isspace (rev (dropWhile isspace s)))"

text \<open>\<open>s.split(sep)\<close> for a one-character separator; the empty string gives one empty part.\<close>

fun split_on :: "char \<Rightarrow> string \<Rightarrow> string list" where
  "split_on sep [] = [[]]"
| "split_on sep (c # cs) =
     (if c = sep then [] # split_on sep cs
      else (case split_on sep cs of p # ps \<Rightarrow> (c # p) # ps | [] \<Rightarrow> [[c]]))"

text \<open>
  \<open>open(path, 'r')\<close> reads with universal newlines: \<open>\r\n\<close> and a lone \<open>\r\<close> arrive
  as \<open>\n\<close>. Iterating the file, or \<open>readlines()\<close>, gives the lines with their
  terminating \<open>\n\<close>; a last line without terminator is given as it is.
\<close>

fun universal_newlines :: "string \<Rightarrow> string" where
  "universal_newlines [] = []"
| "universal_newlines [c] = [if c = CR then NL else c]"
| "universal_newlines (c # d # cs) =
     (if c = CR \<and> d = NL then NL # universal_newlines cs
      else if c = CR then NL # universal_newlines (d # cs)
      else c # universal_newlines (d # cs))"

fun split_lines :: "string \<Rightarrow> string \<Rightarrow> string list" where
  "split_lines cur [] = (if cur = [] then [] else [cur])"
| "split_lines cur (c # cs) =
     (if c = NL then (cur @ [c]) # split_lines [] cs else split_lines (cur @ [c]) cs)"

definition readlines :: "string \<Rightarrow> string list" where
  "readlines text = split_lines [] (universal_newlines text)"

section \<open>Dictionaries\<close>

text \<open>
  A Python \<open>dict\<close> is an association list in insertion order with distinct keys:
  \<open>map_of d k\<close> is \<open>d.get(k)\<close>, \<open>AList.update k v d\<close> is \<open>d[k] = v\<close> (a new key goes to
  the end, an old key keeps its place). \<open>ensure_key\<close> is the idiom
  \<open>if k not in d: d[k] = []\<close> and \<open>append_at\<close> is \<open>d[k].append(v)\<close> for a present key.
\<close>

type_synonym ('k, 'v) dict = "('k \<times> 'v) list"

definition ensure_key :: "'k \<Rightarrow> ('k, 'v list) dict \<Rightarrow> ('k, 'v list) dict" where
  "ensure_key k d = (case map_of d k of None \<Rightarrow> AList.update k [] d | Some vs \<Rightarrow> d)"

definition append_at :: "'k \<Rightarrow> 'v \<Rightarrow> ('k, 'v list) dict \<Rightarrow> ('k, 'v list) dict" where
  "append_at k v d = (case map_of d k of None \<Rightarrow> d | Some vs \<Rightarrow> AList.update k (vs @ [v]) d)"

section \<open>merge\_results.py: the delimited-tuple extractor\<close>

text \<open>
  \<open>parse_estimation_result\<close> loops over the lines of the file. \<open>estimation_entry\<close> is
  what one iteration computes from its line: nothing for a blank line or a line of
  fewer than three columns, otherwise the gene and the list built for it.
  \<open>estimation_line\<close> is the iteration's effect on \<open>results\<close>: the assignment
  \<open>results[gene] = []\<close> followed by the two conditional appends.
\<close>

definition estimation_calls :: "string \<Rightarrow> string \<Rightarrow> string list" where
  "estimation_calls allele1 allele2 =
     (if allele1 \<noteq> [] \<and> allele1 \<noteq> ''-'' \<and> allele1 \<noteq> ''Not typed'' then [allele1] else []) @
     (if allele2 \<noteq> [] \<and> allele2 \<noteq> ''-'' \<and> allele2 \<noteq> ''Not typed'' then [allele2] else [])"

definition estimation_entry :: "string \<Rightarrow> (string \<times> string list) option" where
  "estimation_entry raw =
     (let line = strip raw in
      if line = [] then None
      else let parts = split_on TAB line in
        if length parts \<ge> 3 then
          let gene = strip (parts ! 0);
              allele1 = strip (parts ! 1);
              allele2 = strip (parts ! 2)
          in Some (gene, estimation_calls allele1 allele2)
        else None)"

definition estimation_line ::
  "(string, string list) dict \<Rightarrow> string \<Rightarrow> (string, string list) dict" where
  "estimation_line results raw =
     (case estimation_entry raw of
        None \<Rightarrow> results
      | Some (gene, calls) \<Rightarrow> AList.update gene calls results)"

definition parse_estimation_result :: "string \<Rightarrow> (string, string list) dict" where
  "parse_estimation_result text = foldl estimation_line [] (readlines text)"

section \<open>merge\_results.py: the fixed-column-text extractor\<close>

text \<open>
  \<open>parse_hlala_result\<close> returns the empty dictionary when the best-guess file does not
  exist (\<open>None\<close>); otherwise it skips the first line (\<open>lines[1:]\<close>) and appends, for each
  later line of at least three columns, the cleaned allele of column 2 to the list of
  the gene of column 0. \<open>allele.replace('G', '')\<close> removes every \<open>G\<close> of the token.
\<close>

definition hlala_allele :: "string \<Rightarrow> string" where
  "hlala_allele col =
     (let allele = strip col;
          allele = strip (filter (\<lambda>c. c \<noteq> CHR ''G'') allele)
      in if take 4 allele = ''HLA-'' then allele else ''HLA-'' @ allele)"

definition hlala_entry :: "string \<Rightarrow> (string \<times> string) option" where
  "hlala_entry raw =
     (let line = strip raw in
      if line = [] then None
      else let parts = split_on TAB line in
        if length parts \<ge> 3 then Some (strip (parts ! 0), hlala_allele (parts ! 2))
        else None)"

definition hlala_line ::
  "(string, string list) dict \<Rightarrow> string \<Rightarrow> (string, string list) dict" where
  "hlala_line results raw =
     (case hlala_entry raw of
        None \<Rightarrow> results
      | Some (gene, allele) \<Rightarrow> append_at gene allele (ensure_key gene results))"

definition parse_hlala_result :: "string option \<Rightarrow> (string, string list) dict" where
  "parse_hlala_result bestguess_file =
     (case bestguess_file of
        None \<Rightarrow> []
      | Some text \<Rightarrow> foldl hlala_line [] (tl (readlines text)))"


text \<open>The alleles the fixed-column-text extractor collects for one gene, in file order.\<close>

definition hlala_alleles :: "string \<Rightarrow> string list \<Rightarrow> string list" where
  "hlala_alleles g ls =
     concat (map (\<lambda>l. case hlala_entry l of
                          None \<Rightarrow> []
                        | Some (gene, allele) \<Rightarrow> if gene = g then [allele] else []) ls)"

section \<open>The ranked-report pattern\<close>

text \<open>
  Both scripts scan the report with
  \<^verbatim>\<open>(\d+) ranked ([A-Z0-9]+)\*([^\s]+) \(abundance: ([\d.]+)%\)\<close>.
  Each repeated class is followed by a literal character outside the class (a space
  after the digits, \<open>*\<close> after the gene, a space after the allele, \<open>%\<close> after the
  abundance), so a match can only use the longest run of the class: \<open>match_at\<close> takes
  that run with \<open>takeWhile\<close> and no backtracking is lost. \<open>findall\<close> is \<open>re.findall\<close>:
  leftmost matches, not overlapping, each the tuple of its four groups.
\<close>

definition gene_char :: "char \<Rightarrow> bool" where
  "gene_char c \<longleftrightarrow> c \<in> set ''ABCDEFGHIJKLMNOPQRSTUVWXYZ'' \<or> isdigit c"

definition abundance_char :: "char \<Rightarrow> bool" where
  "abundance_char c \<longleftrightarrow> isdigit c \<or> c = CHR ''.''"

fun literal :: "string \<Rightarrow> string \<Rightarrow> string option" where
  "literal [] s = Some s"
| "literal (p # ps) [] = None"
| "literal (p # ps) (c # cs) = (if p = c then literal ps cs else None)"

type_synonym groups = "string \<times> string \<times> string \<times> string"

definition match_at :: "string \<Rightarrow> (groups \<times> string) option" where
  "match_at s =
     (let rank_s = takeWhile isdigit s; s1 = dropWhile isdigit s in
      if rank_s = [] then None else
      case literal '' ranked '' s1 of None \<Rightarrow> None | Some s2 \<Rightarrow>
      let gene = takeWhile gene_char s2; s3 = dropWhile gene_char s2 in
      if gene = [] then None else
      case literal ''*'' s3 of None \<Rightarrow> None | Some s4 \<Rightarrow>
      let allele_s = takeWhile (\<lambda>c. \<not> isspace c) s4; s5 = dropWhile (\<lambda>c. \<not> isspace c) s4 in
      if allele_s = [] then None else
      case literal '' (abundance: '' s5 of None \<Rightarrow> None | Some s6 \<Rightarrow>
      let abundance_s = takeWhile abundance_char s6; s7 = dropWhile abundance_char s6 in
      if abundance_s = [] then None else
      case literal ''%)'' s7 of None \<Rightarrow> None | Some s8 \<Rightarrow>
      Some ((rank_s, gene, allele_s, abundance_s), s8))"

lemma literal_length: "literal p s = Some r \<Longrightarrow> length r \<le> length s"
  by (induction p s rule: literal.induct) (auto split: if_splits)

lemma match_at_shorter:
  assumes "match_at s = Some (m, r)"
  shows "length r < length s"
proof -
  have dw: "length (dropWhile P xs) \<le> length xs" for P and xs :: string
    by (rule length_dropWhile_le)
  have tw: "takeWhile P xs \<noteq> [] \<Longrightarrow> length (dropWhile P xs) < length xs" for P and xs :: string
    by (cases xs) (auto simp: le_imp_less_Suc length_dropWhile_le split: if_splits)
  from assms obtain s2 s4 s6 where
      r: "takeWhile isdigit s \<noteq> []"
         "literal '' ranked '' (dropWhile isdigit s) = Some s2"
         "literal ''*'' (dropWhile gene_char s2) = Some s4"
         "literal '' (abundance: '' (dropWhile (\<lambda>c. \<not> isspace c) s4) = Some s6"
         "literal ''%)'' (dropWhile abundance_char s6) = Some r"
    unfolding match_at_def Let_def by (auto split: if_splits option.splits)
  have "length r \<le> length (dropWhile abundance_char s6)" using r(5) by (rule literal_length)
  also have "\<dots> \<le> length s6" by (rule dw)
  also have "\<dots> \<le> length (dropWhile (\<lambda>c. \<not> isspace c) s4)" using r(4) by (rule literal_length)
  also have "\<dots> \<le> length s4" by (rule dw)
  also have "\<dots> \<le> length (dropWhile gene_char s2)" using r(3) by (rule literal_length)
  also have "\<dots> \<le> length s2" by (rule dw)
  also have "\<dots> \<le> length (dropWhile isdigit s)" using r(2) by (rule literal_length)
  also have "\<dots> < length s" using r(1) by (rule tw)
  finally show ?thesis .
qed

function findall :: "string \<Rightarrow> groups list" where
  "findall [] = []"
| "findall (c # cs) =
     (case match_at (c # cs) of
        Some (m, rest) \<Rightarrow> m # findall rest
      | None \<Rightarrow> findall cs)"
  by pat_completeness auto
termination
  by (relation "measure length") (auto dest: match_at_shorter)

section \<open>Numbers\<close>

text \<open>
  The exceptions that can end a run: \<open>ValueError\<close> from \<open>int\<close> and \<open>float\<close>,
  \<open>csv.Error\<close> from the csv reader, \<open>NotADirectoryError\<close> from \<open>iterdir\<close>.
\<close>

datatype error = ValueError | csv_Error | NotADirectoryError

text \<open>
  \<open>int(rank)\<close> reads a match of \<open>\d+\<close>: it gives the number, and raises \<open>ValueError\<close>
  when the token has more than \<open>sys.get_int_max_str_digits()\<close> digits, leading zeros
  counted. \<open>float(abundance)\<close> reads a match of \<open>[\d.]+\<close>: digits with at most one point
  and at least one digit, of any length; anything else raises \<open>ValueError\<close>. The
  abundance is kept as the exact decimal value: \<open>float\<close> rounds it to the nearest
  double, and to \<open>inf\<close> beyond the range of doubles, which is not modelled.
\<close>

definition int_max_str_digits :: nat where
  "int_max_str_digits = 4300"

definition digits_value :: "string \<Rightarrow> int" where
  "digits_value s = foldl (\<lambda>n c. 10 * n + (of_char c - 48)) 0 s"

definition int_of :: "string \<Rightarrow> error + int" where
  "int_of s = (if length s > int_max_str_digits then Inl ValueError else Inr (digits_value s))"

definition float_of :: "string \<Rightarrow> error + rat" where
  "float_of s =
     (let ip = takeWhile isdigit s in
      case dropWhile isdigit s of
        [] \<Rightarrow> if ip = [] then Inl ValueError else Inr (of_int (digits_value ip))
      | c # fp \<Rightarrow>
          if c = CHR ''.'' \<and> list_all isdigit fp \<and> (ip \<noteq> [] \<or> fp \<noteq> [])
          then Inr (of_int (digits_value (ip @ fp)) / 10 ^ length fp)
          else Inl ValueError)"

text \<open>A loop whose body may raise: the first error ends it.\<close>

fun fold_result :: "('s \<Rightarrow> 'a \<Rightarrow> error + 's) \<Rightarrow> 's \<Rightarrow> 'a list \<Rightarrow> error + 's" where
  "fold_result f s [] = Inr s"
| "fold_result f s (x # xs) = (case f s x of Inl e \<Rightarrow> Inl e | Inr s' \<Rightarrow> fold_result f s' xs)"

section \<open>The ranked-report extractors\<close>

record call =
  rank :: int
  allele :: string
  abundance :: rat

text \<open>
  \<open>parse_report_file\<close> (generate\_html\_table.py) appends every match to the list of its
  gene. \<open>parse_hisat_report\<close> (merge\_results.py) creates the gene's list for every
  match, appends only when \<open>int(rank) <= 2\<close>, and stores the allele as
  \<open>HLA-<gene>*<allele>\<close>; it converts the abundance only of the matches it keeps.
  The argument of both is \<open>content\<close>, the text of the report as \<open>f.read()\<close> returns it.
  Both create the gene's list first and convert the rank before the abundance.
\<close>

definition report_step :: "(string, call list) dict \<Rightarrow> groups \<Rightarrow> error + (string, call list) dict" where
  "report_step results m =
     (case m of (rank_s, gene, allele_s, abundance_s) \<Rightarrow>
        let results = ensure_key gene results in
        case int_of rank_s of
          Inl e \<Rightarrow> Inl e
        | Inr r \<Rightarrow>
            (case float_of abundance_s of
               Inl e \<Rightarrow> Inl e
             | Inr ab \<Rightarrow>
                 Inr (append_at gene \<lparr>rank = r, allele = allele_s, abundance = ab\<rparr> results)))"

definition parse_report_file :: "string \<Rightarrow> error + (string, call list) dict" where
  "parse_report_file content = fold_result report_step [] (findall content)"

definition hisat_step :: "(string, call list) dict \<Rightarrow> groups \<Rightarrow> error + (string, call list) dict" where
  "hisat_step results m =
     (case m of (rank_s, gene, allele_s, abundance_s) \<Rightarrow>
        let results = ensure_key gene results in
        case int_of rank_s of
          Inl e \<Rightarrow> Inl e
        | Inr r \<Rightarrow>
            if r \<le> 2 then
              case float_of abundance_s of
                Inl e \<Rightarrow> Inl e
              | Inr ab \<Rightarrow>
                  Inr (append_at gene
                        \<lparr>rank = r, allele = ''HLA-'' @ gene @ ''*'' @ allele_s, abundance = ab\<rparr>
                        results)
            else Inr results)"

definition parse_hisat_report :: "string \<Rightarrow> error + (string, call list) dict" where
  "parse_hisat_report content = fold_result hisat_step [] (findall content)"

section \<open>merge\_results.py: the TSV-column extractor\<close>

text \<open>
  \<open>csv.reader\<close> with \<open>delimiter='\t'\<close> and the other settings of the default dialect
  (quote character \<open>"\<close>, doubled quotes, not strict), as the state machine of the csv
  module runs over the text after newline translation. A newline ends the record
  except inside a quoted field, where it is kept; at the end of the text a record that
  was begun is returned. An empty line gives the empty record. A character added to a
  field that already has \<open>csv.field_size_limit()\<close> characters raises \<open>csv.Error\<close>; the
  loop over the reader reads every record, so the error ends the extractor wherever
  the field stands.
\<close>

datatype csv_state = START_RECORD | START_FIELD | IN_FIELD | IN_QUOTED_FIELD | QUOTE_IN_QUOTED_FIELD

definition field_limit :: nat where
  "field_limit = 131072"

text \<open>A finished record goes in front of the records that follow, if reading those succeeds.\<close>

definition emit :: "string list \<Rightarrow> error + string list list \<Rightarrow> error + string list list" where
  "emit r rest = (case rest of Inl e \<Rightarrow> Inl e | Inr rs \<Rightarrow> Inr (r # rs))"

fun csv_reader :: "csv_state \<Rightarrow> string \<Rightarrow> string list \<Rightarrow> string \<Rightarrow> error + string list list" where
  "csv_reader st fld flds [] = (if st = START_RECORD then Inr [] else Inr [flds @ [fld]])"
| "csv_reader START_RECORD fld flds (c # cs) =
     (if c = NL then emit [] (csv_reader START_RECORD [] [] cs)
      else if c = CHR 0x22 then csv_reader IN_QUOTED_FIELD [] flds cs
      else if c = TAB then csv_reader START_FIELD [] (flds @ [[]]) cs
      else csv_reader IN_FIELD [c] flds cs)"
| "csv_reader START_FIELD fld flds (c # cs) =
     (if c = NL then emit (flds @ [[]]) (csv_reader START_RECORD [] [] cs)
      else if c = CHR 0x22 then csv_reader IN_QUOTED_FIELD [] flds cs
      else if c = TAB then csv_reader START_FIELD [] (flds @ [[]]) cs
      else csv_reader IN_FIELD [c] flds cs)"
| "csv_reader IN_FIELD fld flds (c # cs) =
     (if c = NL then emit (flds @ [fld]) (csv_reader START_RECORD [] [] cs)
      else if c = TAB then csv_reader START_FIELD [] (flds @ [fld]) cs
      else if length fld \<ge> field_limit then Inl csv_Error
      else csv_reader IN_FIELD (fld @ [c]) flds cs)"
| "csv_reader IN_QUOTED_FIELD fld flds (c # cs) =
     (if c = CHR 0x22 then csv_reader QUOTE_IN_QUOTED_FIELD fld flds cs
      else if length fld \<ge> field_limit then Inl csv_Error
      else csv_reader IN_QUOTED_FIELD (fld @ [c]) flds cs)"
| "csv_reader QUOTE_IN_QUOTED_FIELD fld flds (c # cs) =
     (if c = CHR 0x22 then
        (if length fld \<ge> field_limit then Inl csv_Error
         else csv_reader IN_QUOTED_FIELD (fld @ [c]) flds cs)
      else if c = TAB then csv_reader START_FIELD [] (flds @ [fld]) cs
      else if c = NL then emit (flds @ [fld]) (csv_reader START_RECORD [] [] cs)
      else if length fld \<ge> field_limit then Inl csv_Error
      else csv_reader IN_FIELD (fld @ [c]) flds cs)"

text \<open>
  \<open>csv.DictReader\<close>: the first record names the columns; every later non-empty record
  becomes a dictionary from column name to value, a later column of the same name
  overwriting an earlier one, and a column the record is too short for is \<open>None\<close>.
  Surplus values go under the key \<open>None\<close>, which no column name equals; they are left out.
\<close>

definition dict_row :: "string list \<Rightarrow> string list \<Rightarrow> (string, string option) dict" where
  "dict_row fieldnames row =
     foldl (\<lambda>d (k, v). AList.update k v d) []
       (zip fieldnames (map Some row @ replicate (length fieldnames - length row) None))"

definition DictReader :: "string \<Rightarrow> error + (string, string option) dict list" where
  "DictReader text =
     (case csv_reader START_RECORD [] [] (universal_newlines text) of
        Inl e \<Rightarrow> Inl e
      | Inr [] \<Rightarrow> Inr []
      | Inr (fieldnames # rows) \<Rightarrow> Inr (map (dict_row fieldnames) (filter (\<lambda>r. r \<noteq> []) rows)))"

text \<open>
  \<open>parse_optitype_result\<close>: the argument is \<open>None\<close> when the sample's directory does
  not exist, otherwise the texts of the files \<open>rglob('*_result.tsv')\<close> finds, in the
  order it gives them; the first is read. \<open>optitype_alleles\<close> is the inner loop over
  the suffixes 1 and 2, \<open>optitype_gene\<close> the body of the loop over the genes.
\<close>

definition optitype_alleles :: "(string, string option) dict \<Rightarrow> string \<Rightarrow> string list" where
  "optitype_alleles row gene =
     concat (map (\<lambda>i. case map_of row (gene @ i) of
                          Some (Some v) \<Rightarrow>
                            if v \<noteq> [] \<and> strip v \<noteq> [] then [''HLA-'' @ strip v] else []
                        | _ \<Rightarrow> []) [''1'', ''2''])"

definition optitype_gene ::
  "(string, string option) dict \<Rightarrow> (string, string list) dict \<Rightarrow> string \<Rightarrow> (string, string list) dict" where
  "optitype_gene row results gene =
     (let alleles = optitype_alleles row gene in
      if alleles \<noteq> [] then AList.update gene alleles results else results)"

definition optitype_row ::
  "(string, string list) dict \<Rightarrow> (string, string option) dict \<Rightarrow> (string, string list) dict" where
  "optitype_row results row = foldl (optitype_gene row) results [''A'', ''B'', ''C'']"

definition parse_optitype_result :: "string list option \<Rightarrow> error + (string, string list) dict" where
  "parse_optitype_result tsv_files =
     (case tsv_files of
        None \<Rightarrow> Inr []
      | Some [] \<Rightarrow> Inr []
      | Some (text # others) \<Rightarrow>
          (case DictReader text of
             Inl e \<Rightarrow> Inl e
           | Inr rows \<Rightarrow> Inr (foldl optitype_row [] rows)))"

section \<open>merge\_results.py: one sample\<close>

text \<open>
  What the file system answers for one sample: \<open>hisat_reports\<close> is \<open>None\<close> when
  \<open>hisat_dir/sample\<close> does not exist and otherwise the texts of its \<open>*.report\<close> files
  in the order \<open>glob\<close> gives them; \<open>estimation_file\<close> and \<open>hlala_file\<close> are the texts of
  the two files at their fixed paths, \<open>None\<close> when absent; \<open>optitype_files\<close> is the
  argument of \<open>parse_optitype_result\<close>.
\<close>

record sample_files =
  hisat_reports :: "string list option"
  estimation_file :: "string option"
  optitype_files :: "string list option"
  hlala_file :: "string option"

record sample_data =
  sample :: string
  hisat :: "(string, call list) dict"
  estimation :: "(string, string list) dict"
  optitype :: "(string, string list) dict"
  hlala :: "(string, string list) dict"

definition collect_sample_data :: "string \<Rightarrow> sample_files \<Rightarrow> error + sample_data" where
  "collect_sample_data sample_name fs =
     (case (case hisat_reports fs of
              Some (report # others) \<Rightarrow> parse_hisat_report report
            | _ \<Rightarrow> Inr []) of
        Inl e \<Rightarrow> Inl e
      | Inr hisat_data \<Rightarrow>
          (case parse_optitype_result (optitype_files fs) of
             Inl e \<Rightarrow> Inl e
           | Inr optitype_data \<Rightarrow>
               Inr \<lparr>sample = sample_name,
                    hisat = hisat_data,
                    estimation = (case estimation_file fs of
                                    Some text \<Rightarrow> parse_estimation_result text
                                  | None \<Rightarrow> []),
                    optitype = optitype_data,
                    hlala = parse_hlala_result (hlala_file fs)\<rparr>))"

text \<open>
  \<open>generate_sample_html\<close> writes one table row per gene of \<open>all_genes\<close>, with the four
  method cells in the fixed order OptiType, HLA-LA, HLA-HD (the estimation results),
  HISAT-genotype. The document is kept as these rows; the markup around them is
  constant. A cell lists \<open>sorted(...)\<close> of the gene's calls when the gene is a key with
  a non-empty list, and is the \<open>No data\<close> marker otherwise.
\<close>

datatype 'a cell = No_data | Alleles "'a list"

record sample_row =
  row_gene :: string
  optitype_cell :: "string cell"
  hlala_cell :: "string cell"
  estimation_cell :: "string cell"
  hisat_cell :: "call cell"

definition method_cell :: "('a \<Rightarrow> string) \<Rightarrow> (string, 'a list) dict \<Rightarrow> string \<Rightarrow> 'a cell" where
  "method_cell key d gene =
     (case map_of d gene of
        None \<Rightarrow> No_data
      | Some [] \<Rightarrow> No_data
      | Some (x # xs) \<Rightarrow> Alleles (sort_key key (x # xs)))"

definition all_genes_of :: "sample_data \<Rightarrow> string list" where
  "all_genes_of data =
     sort (remdups (map fst (hisat data) @ map fst (estimation data) @
                    map fst (optitype data) @ map fst (hlala data)))"

definition generate_sample_html :: "sample_data \<Rightarrow> sample_row list" where
  "generate_sample_html data =
     map (\<lambda>gene. \<lparr>row_gene = gene,
                  optitype_cell = method_cell (\<lambda>a. a) (optitype data) gene,
                  hlala_cell = method_cell (\<lambda>a. a) (hlala data) gene,
                  estimation_cell = method_cell (\<lambda>a. a) (estimation data) gene,
                  hisat_cell = method_cell allele (hisat data) gene\<rparr>)
         (all_genes_of data)"

section \<open>Runs of the scripts\<close>

text \<open>
  A run prints messages and writes documents. The messages are kept by kind and
  argument instead of their formatted text. A run that returns from \<open>main\<close> ends the
  process with exit status 0 (neither script calls \<open>sys.exit\<close>); an exception nobody
  catches ends it with status 1.
\<close>

datatype message =
    Parsing_results
  | Error_directory_missing
  | Warning_no_report string
  | No_data_found
  | Found nat nat
  | Generating_table
  | Table_generated
  | Done_table
  | Error_not_found
  | Processing_samples nat
  | Processing string
  | Generated string
  | Done_comparison nat

definition exit_status :: "error + 'a \<Rightarrow> nat" where
  "exit_status r = (case r of Inl e \<Rightarrow> 1 | Inr out \<Rightarrow> 0)"

text \<open>
  The path \<open>hisat.output\<close> as both scripts see it: \<open>Missing\<close> when it does not
  exist; \<open>Not_a_directory\<close> when it exists and is no directory, where \<open>exists()\<close> holds
  and \<open>iterdir()\<close> raises; otherwise a directory with its entries by name, each
  \<open>None\<close> when it is not a directory and otherwise the texts of its \<open>*.report\<close>
  files, as read, in \<open>glob\<close> order.
\<close>

datatype hisat_root = Missing | Not_a_directory | Directory "(string \<times> string list option) list"

section \<open>merge\_results.py: main\<close>

text \<open>
  The four input directories of \<open>main\<close>. For the three comparison tools the
  directory is given by what \<open>collect_sample_data\<close> looks up in it: for a sample name,
  the text of its estimation result file, the texts of its \<open>*_result.tsv\<close> files (the
  sample is a key when its OptiType directory exists) and the text of its best-guess
  file. Creating the output directory and writing a document are taken to succeed.
\<close>

record merge_env =
  hisat_dir :: hisat_root
  estimation_dir :: "(string, string) dict"
  optitype_dir :: "(string, string list) dict"
  hlala_dir :: "(string, string) dict"

definition sample_files_of :: "merge_env \<Rightarrow> string \<Rightarrow> sample_files" where
  "sample_files_of env sample_name =
     \<lparr>hisat_reports =
        (case hisat_dir env of
           Directory entries \<Rightarrow>
             (case map_of entries sample_name of
                None \<Rightarrow> None
              | Some None \<Rightarrow> Some []
              | Some (Some reports) \<Rightarrow> Some reports)
         | _ \<Rightarrow> None),
      estimation_file = map_of (estimation_dir env) sample_name,
      optitype_files = map_of (optitype_dir env) sample_name,
      hlala_file = map_of (hlala_dir env) sample_name\<rparr>"

type_synonym merge_outcome = "message list \<times> (string \<times> sample_row list) list"

definition merge_sample :: "merge_env \<Rightarrow> merge_outcome \<Rightarrow> string \<Rightarrow> error + merge_outcome" where
  "merge_sample env out sample_name =
     (case collect_sample_data sample_name (sample_files_of env sample_name) of
        Inl e \<Rightarrow> Inl e
      | Inr data \<Rightarrow>
          let output_file = sample_name @ ''_comparison.html'' in
          Inr (fst out @ [Processing sample_name, Generated output_file],
               snd out @ [(output_file, generate_sample_html data)]))"

definition sample_dirs :: "(string \<times> string list option) list \<Rightarrow> string list" where
  "sample_dirs entries = map fst (filter (\<lambda>e. snd e \<noteq> None) (sort_key fst entries))"

definition merge_results_main :: "merge_env \<Rightarrow> error + merge_outcome" where
  "merge_results_main env =
     (case hisat_dir env of
        Missing \<Rightarrow> Inr ([Error_not_found], [])
      | Not_a_directory \<Rightarrow> Inl NotADirectoryError
      | Directory entries \<Rightarrow>
          let samples = sample_dirs entries in
          case fold_result (merge_sample env) ([Processing_samples (length samples)], []) samples of
            Inl e \<Rightarrow> Inl e
          | Inr out \<Rightarrow> Inr (fst out @ [Done_comparison (length samples)], snd out))"

section \<open>generate\_html\_table.py\<close>

type_synonym all_data = "(string, (string, call list) dict) dict"

text \<open>
  \<open>collect_all_results\<close>: the loop state is what was printed, \<open>all_data\<close> and
  \<open>samples\<close>. An entry that is no directory is passed over; a directory without report
  gets a warning and is passed over; a directory whose first report has no match is
  passed over as well (\<open>if results:\<close>).
\<close>

type_synonym collect_state = "message list \<times> all_data \<times> string list"

definition collect_step :: "collect_state \<Rightarrow> string \<times> string list option \<Rightarrow> error + collect_state" where
  "collect_step st entry =
     (case st of (msgs, data, samples) \<Rightarrow>
      case entry of
        (sample_name, None) \<Rightarrow> Inr st
      | (sample_name, Some []) \<Rightarrow> Inr (msgs @ [Warning_no_report sample_name], data, samples)
      | (sample_name, Some (report # others)) \<Rightarrow>
          (case parse_report_file report of
             Inl e \<Rightarrow> Inl e
           | Inr results \<Rightarrow>
               if results \<noteq> []
               then Inr (msgs, AList.update sample_name results data, samples @ [sample_name])
               else Inr st))"

definition genes_of :: "all_data \<Rightarrow> string list" where
  "genes_of data = sort (remdups (concat (map (\<lambda>sr. map fst (snd sr)) data)))"

definition collect_all_results ::
  "hisat_root \<Rightarrow> error + message list \<times> (all_data \<times> string list \<times> string list) option" where
  "collect_all_results output_dir =
     (case output_dir of
        Missing \<Rightarrow> Inr ([Error_directory_missing], None)
      | Not_a_directory \<Rightarrow> Inl NotADirectoryError
      | Directory entries \<Rightarrow>
          (case fold_result collect_step ([], [], []) (sort_key fst entries) of
             Inl e \<Rightarrow> Inl e
           | Inr (msgs, data, samples) \<Rightarrow> Inr (msgs, Some (data, sort samples, genes_of data))))"

text \<open>
  \<open>generate_html_table\<close> goes through the genes and, for each gene, the samples. Where
  the sample has the gene it sorts the stored list in place,
  \<open>ranked_alleles.sort(key=lambda x: x['rank'])\<close>, and lists it; elsewhere the cell is
  a dash. The function is given \<open>all_data\<close> and returns it as the loops leave it,
  with the table's header and rows.
\<close>

datatype table_cell = Dash | Ranked "call list"

definition render_cell :: "all_data \<Rightarrow> string \<Rightarrow> string \<Rightarrow> all_data \<times> table_cell" where
  "render_cell data gene sample_name =
     (case map_of data sample_name of
        None \<Rightarrow> (data, Dash)
      | Some results \<Rightarrow>
          (case map_of results gene of
             None \<Rightarrow> (data, Dash)
           | Some ranked_alleles \<Rightarrow>
               let sorted_alleles = sort_key rank ranked_alleles in
               (AList.update sample_name (AList.update gene sorted_alleles results) data,
                Ranked sorted_alleles)))"

fun render_row :: "all_data \<Rightarrow> string \<Rightarrow> string list \<Rightarrow> all_data \<times> table_cell list" where
  "render_row data gene [] = (data, [])"
| "render_row data gene (s # ss) =
     (case render_cell data gene s of (data1, c) \<Rightarrow>
      case render_row data1 gene ss of (data2, cs) \<Rightarrow> (data2, c # cs))"

fun render_rows ::
  "all_data \<Rightarrow> string list \<Rightarrow> string list \<Rightarrow> all_data \<times> (string \<times> table_cell list) list" where
  "render_rows data samples [] = (data, [])"
| "render_rows data samples (g # gs) =
     (case render_row data g samples of (data1, cells) \<Rightarrow>
      case render_rows data1 samples gs of (data2, rows) \<Rightarrow> (data2, (g, cells) # rows))"

record html_table =
  header :: "string list"
  body :: "(string \<times> table_cell list) list"

definition generate_html_table ::
  "all_data \<Rightarrow> string list \<Rightarrow> string list \<Rightarrow> all_data \<times> html_table" where
  "generate_html_table data samples genes =
     (case render_rows data samples genes of
        (data', rows) \<Rightarrow> (data', \<lparr>header = samples, body = rows\<rparr>))"

type_synonym table_outcome = "message list \<times> html_table option"

definition generate_html_table_main :: "hisat_root \<Rightarrow> error + table_outcome" where
  "generate_html_table_main output_dir =
     (case collect_all_results output_dir of
        Inl e \<Rightarrow> Inl e
      | Inr (msgs, None) \<Rightarrow> Inr ([Parsing_results] @ msgs @ [No_data_found], None)
      | Inr (msgs, Some (data, samples, genes)) \<Rightarrow>
          if data = [] then Inr ([Parsing_results] @ msgs @ [No_data_found], None)
          else
            case generate_html_table data samples genes of (data', table) \<Rightarrow>
              Inr ([Parsing_results] @ msgs @
                   [Found (length samples) (length genes), Generating_table,
                    Table_generated, Done_table],
                   Some table))"

text \<open>\<open>all_data[sample][gene]\<close>, when both keys are there.\<close>

definition stored :: "all_data \<Rightarrow> string \<Rightarrow> string \<Rightarrow> call list option" where
  "stored data sample_name gene =
     (case map_of data sample_name of None \<Rightarrow> None | Some results \<Rightarrow> map_of results gene)"

text \<open>Every field of every record consists of characters of \<open>A\<close>.\<close>

definition fields_within :: "char set \<Rightarrow> string list list \<Rightarrow> bool" where
  "fields_within A rs \<longleftrightarrow> (\<forall>r \<in> set rs. \<forall>f \<in> set r. set f \<subseteq> A)"

text \<open>
  The same of what the reader returns; the only error of the reader is \<open>csv.Error\<close>.
\<close>

definition records_within :: "char set \<Rightarrow> error + string list list \<Rightarrow> bool" where
  "records_within A res \<longleftrightarrow> (case res of Inl e \<Rightarrow> e = csv_Error | Inr rs \<Rightarrow> fields_within A rs)"

text \<open>
  What a cell of the per-sample table shows of the stored list of its gene and method:
  the \<open>No data\<close> marker when the gene is no key or its list is empty, otherwise the
  same calls in non-decreasing order of the sort key.
\<close>

definition cell_shows :: "('a \<Rightarrow> string) \<Rightarrow> 'a list option \<Rightarrow> 'a cell \<Rightarrow> bool" where
  "cell_shows key stored_calls c \<longleftrightarrow>
     (case c of
        No_data \<Rightarrow> stored_calls = None \<or> stored_calls = Some []
      | Alleles xs \<Rightarrow>
          xs \<noteq> [] \<and> sorted (map key xs) \<and> (\<exists>ys. stored_calls = Some ys \<and> mset xs = mset ys))"

text \<open>
  For stating what the ranked-report extractors keep: the matches of a text whose gene
  group is \<open>g\<close>, and the relation between a match and the call stored for it, the
  allele name being formed by \<open>f\<close> from the allele group.
\<close>

definition gene_matches :: "string \<Rightarrow> groups list \<Rightarrow> groups list" where
  "gene_matches g ms = filter (\<lambda>m. fst (snd m) = g) ms"

definition stored_as :: "(string \<Rightarrow> string) \<Rightarrow> groups \<Rightarrow> call \<Rightarrow> bool" where
  "stored_as f m c \<longleftrightarrow>
     (case m of (rank_s, gene, allele_s, abundance_s) \<Rightarrow>
        int_of rank_s = Inr (rank c) \<and> allele c = f allele_s \<and>
        float_of abundance_s = Inr (abundance c))"

text \<open>
  For stating what the TSV-column extractor gives for a table written out in full: a
  value is \<open>plain\<close> when it has no tab, newline or quote character and is within the
  field size limit; \<open>tsv_line\<close> joins the values of a row with tabs and \<open>tsv_table\<close>
  ends every row with a newline. \<open>kept_values\<close> are the values of some columns that
  are not blank, trimmed and prefixed; \<open>last_kept\<close> is the last non-empty list of a
  sequence of lists, if there is one.
\<close>

definition plain :: "string \<Rightarrow> bool" where
  "plain v \<longleftrightarrow>
     TAB \<notin> set v \<and> NL \<notin> set v \<and> CR \<notin> set v \<and> CHR 0x22 \<notin> set v \<and> length v \<le> field_limit"

definition tsv_line :: "string list \<Rightarrow> string" where
  "tsv_line vs = (case vs of [] \<Rightarrow> [] | v # ws \<Rightarrow> v @ concat (map (\<lambda>w. TAB # w) ws))"

definition tsv_table :: "string list list \<Rightarrow> string" where
  "tsv_table rows = concat (map (\<lambda>r. tsv_line r @ [NL]) rows)"

definition optitype_header :: "string list" where
  "optitype_header = [''A1'', ''A2'', ''B1'', ''B2'', ''C1'', ''C2'']"

definition kept_values :: "string list \<Rightarrow> string list" where
  "kept_values vs = map (\<lambda>v. ''HLA-'' @ strip v) (filter (\<lambda>v. strip v \<noteq> []) vs)"

definition last_kept :: "string list list \<Rightarrow> string list option" where
  "last_kept xs =
     (let ys = filter (\<lambda>x. x \<noteq> []) xs in if ys = [] then None else Some (last ys))"

section \<open>Properties of the delimited-tuple and fixed-column-text extractors\<close>

lemmas text_eval = strip_def isspace_def isdigit_def readlines_def Let_def

lemma map_of_estimation_line:
  "map_of (estimation_line results raw) g =
     (case estimation_entry raw of
        None \<Rightarrow> map_of results g
      | Some (gene, calls) \<Rightarrow> if g = gene then Some calls else map_of results g)"
  by (auto simp: estimation_line_def update_conv' split: option.splits)

lemma estimation_fold_origin:
  "map_of (foldl estimation_line acc ls) g = Some calls \<Longrightarrow>
     map_of acc g = Some calls \<or> (\<exists>l \<in> set ls. estimation_entry l = Some (g, calls))"
proof (induction ls arbitrary: calls rule: rev_induct)
  case Nil
  then show ?case by simp
next
  case (snoc l ls)
  show ?case
  proof (cases "estimation_entry l")
    case None
    with snoc show ?thesis by (auto simp: map_of_estimation_line)
  next
    case (Some e)
    obtain gene cs where e: "e = (gene, cs)" by (cases e)
    show ?thesis
    proof (cases "g = gene")
      case True
      with snoc.prems Some e have "calls = cs" by (simp add: map_of_estimation_line)
      with True Some e show ?thesis by auto
    next
      case False
      with snoc.prems Some e have "map_of (foldl estimation_line acc ls) g = Some calls"
        by (simp add: map_of_estimation_line)
      from snoc.IH[OF this] show ?thesis by auto
    qed
  qed
qed

lemma estimation_fold_last:
  assumes "estimation_entry l = Some (g, calls)"
      and "\<forall>l' \<in> set post. \<forall>cs. estimation_entry l' \<noteq> Some (g, cs)"
  shows "map_of (foldl estimation_line acc (pre @ [l] @ post)) g = Some calls"
  using assms(2)
proof (induction post rule: rev_induct)
  case Nil
  then show ?case using assms(1) by (simp add: map_of_estimation_line)
next
  case (snoc x xs)
  then have IH: "map_of (foldl estimation_line acc (pre @ [l] @ xs)) g = Some calls" by simp
  from snoc.prems have "\<forall>cs. estimation_entry x \<noteq> Some (g, cs)" by simp
  then show ?case using IH
    by (auto simp: map_of_estimation_line split: option.splits)
qed

lemma estimation_calls_filter:
  "estimation_calls a1 a2 = filter (\<lambda>a. a \<noteq> [] \<and> a \<noteq> ''-'' \<and> a \<noteq> ''Not typed'') [a1, a2]"
  by (simp add: estimation_calls_def)

lemma estimation_entry_columns:
  assumes "estimation_entry l = Some (g, calls)"
  shows "3 \<le> length (split_on TAB (strip l)) \<and> strip (split_on TAB (strip l) ! 0) = g \<and>
         calls = filter (\<lambda>a. a \<noteq> [] \<and> a \<noteq> ''-'' \<and> a \<noteq> ''Not typed'')
                   [strip (split_on TAB (strip l) ! 1), strip (split_on TAB (strip l) ! 2)]"
  using assms unfolding estimation_entry_def Let_def estimation_calls_filter
  by (auto split: if_splits)

lemma map_of_append_ensure:
  "map_of (append_at k v (ensure_key k d)) x =
     (if x = k then Some ((case map_of d k of None \<Rightarrow> [] | Some vs \<Rightarrow> vs) @ [v]) else map_of d x)"
  by (auto simp: append_at_def ensure_key_def update_conv' split: option.splits)

lemma map_of_hlala_line:
  "map_of (hlala_line results raw) g =
     (case hlala_entry raw of
        None \<Rightarrow> map_of results g
      | Some (gene, a) \<Rightarrow>
          if g = gene then Some ((case map_of results g of None \<Rightarrow> [] | Some vs \<Rightarrow> vs) @ [a])
          else map_of results g)"
  by (auto simp: hlala_line_def map_of_append_ensure split: option.splits)

lemma hlala_alleles_snoc:
  "hlala_alleles g (ls @ [l]) =
     hlala_alleles g ls @
       (case hlala_entry l of None \<Rightarrow> [] | Some (gene, a) \<Rightarrow> if gene = g then [a] else [])"
  by (simp add: hlala_alleles_def)

lemma hlala_fold:
  "map_of (foldl hlala_line acc ls) g =
     (case map_of acc g of
        None \<Rightarrow> if hlala_alleles g ls = [] then None else Some (hlala_alleles g ls)
      | Some vs \<Rightarrow> Some (vs @ hlala_alleles g ls))"
proof (induction ls rule: rev_induct)
  case Nil
  show ?case by (simp add: hlala_alleles_def split: option.splits)
next
  case (snoc l ls)
  show ?case
  proof (cases "hlala_entry l")
    case None
    then show ?thesis
      by (simp add: map_of_hlala_line snoc hlala_alleles_snoc split: option.splits)
  next
    case (Some e)
    obtain gene a where e: "e = (gene, a)" by (cases e)
    show ?thesis
    proof (cases "gene = g")
      case True
      with Some e show ?thesis
        by (simp add: map_of_hlala_line snoc hlala_alleles_snoc split: option.splits)
    next
      case False
      with Some e show ?thesis
        by (simp add: map_of_hlala_line snoc hlala_alleles_snoc split: option.splits)
    qed
  qed
qed

text \<open>
  C5. In the result of the delimited-tuple extractor every gene's sequence comes from
  one line of at least three tab-separated columns whose column 0 is the gene, and is
  the columns 1 and 2 of that line without the values that are empty, \<open>-\<close> or
  \<open>Not typed\<close>: a sentinel is left out, no placeholder stands for it.
\<close>

theorem estimation_sentinels_omitted:
  assumes "map_of (parse_estimation_result text) gene = Some calls"
  shows "''-'' \<notin> set calls \<and> ''Not typed'' \<notin> set calls \<and>
         (\<exists>line \<in> set (readlines text).
            3 \<le> length (split_on TAB (strip line)) \<and>
            strip (split_on TAB (strip line) ! 0) = gene \<and>
            calls = filter (\<lambda>a. a \<noteq> [] \<and> a \<noteq> ''-'' \<and> a \<noteq> ''Not typed'')
                      [strip (split_on TAB (strip line) ! 1), strip (split_on TAB (strip line) ! 2)])"
proof -
  from assms have "map_of (foldl estimation_line [] (readlines text)) gene = Some calls"
    by (simp add: parse_estimation_result_def)
  from estimation_fold_origin[OF this]
  obtain l where l: "l \<in> set (readlines text)" "estimation_entry l = Some (gene, calls)"
    by auto
  note cols = estimation_entry_columns[OF l(2)]
  from cols have "''-'' \<notin> set calls" "''Not typed'' \<notin> set calls" by auto
  with l(1) cols show ?thesis by blast
qed

theorem estimation_sentinels_omitted_witness:
  "parse_estimation_result (''A'' @ [TAB] @ ''A*01:01'' @ [TAB] @ ''Not typed'') = [(''A'', [''A*01:01''])] \<and>
   ''-'' \<notin> set [''A*01:01''] \<and> ''Not typed'' \<notin> set [''A*01:01'']"
proof -
  have e: "parse_estimation_result (''A'' @ [TAB] @ ''A*01:01'' @ [TAB] @ ''Not typed'') = [(''A'', [''A*01:01''])]"
    by (simp add: parse_estimation_result_def estimation_line_def estimation_entry_def
                  estimation_calls_def text_eval)
  then have h: "map_of (parse_estimation_result (''A'' @ [TAB] @ ''A*01:01'' @ [TAB] @ ''Not typed'')) ''A''
                  = Some [''A*01:01'']"
    by simp
  from estimation_sentinels_omitted[OF h] e show ?thesis by blast
qed

text \<open>
  C10. When a gene has several lines of at least three columns in a delimited-tuple
  file, its sequence in the result is the one built from the last of them: each such
  line assigns the gene's sequence anew. The fixed-column-text extractor differs: its
  sequence for a gene holds the alleles of all the gene's lines after the header, in
  file order.
\<close>

theorem estimation_repeated_gene_resets:
  assumes "readlines text = pre @ [l1] @ mid @ [l2] @ post"
      and "estimation_entry l1 = Some (g, calls1)"
      and "estimation_entry l2 = Some (g, calls2)"
      and "\<forall>l \<in> set post. \<forall>cs. estimation_entry l \<noteq> Some (g, cs)"
  shows "map_of (parse_estimation_result text) g = Some calls2 \<and>
         map_of (parse_hlala_result (Some text)) g' =
           (if hlala_alleles g' (tl (readlines text)) = [] then None
            else Some (hlala_alleles g' (tl (readlines text))))"
proof -
  have "readlines text = (pre @ [l1] @ mid) @ [l2] @ post" using assms(1) by simp
  then have "map_of (parse_estimation_result text) g = Some calls2"
    unfolding parse_estimation_result_def
    using estimation_fold_last[OF assms(3,4), of "[]" "pre @ [l1] @ mid"] by simp
  moreover have "map_of (parse_hlala_result (Some text)) g' =
           (if hlala_alleles g' (tl (readlines text)) = [] then None
            else Some (hlala_alleles g' (tl (readlines text))))"
    by (simp add: parse_hlala_result_def hlala_fold)
  ultimately show ?thesis by simp
qed

theorem estimation_repeated_gene_resets_witness:
  "map_of (parse_estimation_result
      (''Gene'' @ [TAB] @ ''x'' @ [TAB] @ ''y'' @ [NL] @
       ''A'' @ [TAB] @ ''A*01:01'' @ [TAB] @ ''A*02:01'' @ [NL] @
       ''A'' @ [TAB] @ ''A*03:01'' @ [TAB] @ ''A*03:02'' @ [NL] @
       ''B'' @ [TAB] @ ''B*07:02'' @ [TAB] @ ''-'' @ [NL])) ''A'' = Some [''A*03:01'', ''A*03:02''] \<and>
   map_of (parse_hlala_result (Some
      (''Gene'' @ [TAB] @ ''x'' @ [TAB] @ ''y'' @ [NL] @
       ''A'' @ [TAB] @ ''A*01:01'' @ [TAB] @ ''A*02:01'' @ [NL] @
       ''A'' @ [TAB] @ ''A*03:01'' @ [TAB] @ ''A*03:02'' @ [NL] @
       ''B'' @ [TAB] @ ''B*07:02'' @ [TAB] @ ''-'' @ [NL]))) ''A''
     = Some [''HLA-A*02:01'', ''HLA-A*03:02'']"
proof -
  let ?h = "''Gene'' @ [TAB] @ ''x'' @ [TAB] @ ''y'' @ [NL]"
  let ?l1 = "''A'' @ [TAB] @ ''A*01:01'' @ [TAB] @ ''A*02:01'' @ [NL]"
  let ?l2 = "''A'' @ [TAB] @ ''A*03:01'' @ [TAB] @ ''A*03:02'' @ [NL]"
  let ?l3 = "''B'' @ [TAB] @ ''B*07:02'' @ [TAB] @ ''-'' @ [NL]"
  let ?t = "?h @ ?l1 @ ?l2 @ ?l3"
  have r: "readlines ?t = [?h] @ [?l1] @ [] @ [?l2] @ [?l3]" by (simp add: text_eval)
  have e1: "estimation_entry ?l1 = Some (''A'', [''A*01:01'', ''A*02:01''])"
    by (simp add: estimation_entry_def estimation_calls_def text_eval)
  have e2: "estimation_entry ?l2 = Some (''A'', [''A*03:01'', ''A*03:02''])"
    by (simp add: estimation_entry_def estimation_calls_def text_eval)
  have p: "\<forall>l \<in> set [?l3]. \<forall>cs. estimation_entry l \<noteq> Some (''A'', cs)"
    by (simp add: estimation_entry_def estimation_calls_def text_eval)
  have a: "hlala_alleles ''A'' (tl (readlines ?t)) = [''HLA-A*02:01'', ''HLA-A*03:02'']"
    by (simp add: hlala_alleles_def hlala_entry_def hlala_allele_def text_eval)
  from estimation_repeated_gene_resets[OF r e1 e2 p, of "''A''"] a show ?thesis by simp
qed

text \<open>
  C3. The fixed-column-text extractor on a best-guess file with a line for the gene
  \<open>G\<close> and a line with a null allele: the \<open>G\<close> inside the first token is removed, the
  suffix \<open>N\<close> of the second stays.
\<close>

theorem hlala_suffix_stripping_fails:
  "parse_hlala_result (Some
      (''Locus'' @ [TAB] @ ''Chromosome'' @ [TAB] @ ''Allele'' @ [NL] @
       ''G'' @ [TAB] @ ''1'' @ [TAB] @ ''G*01:01:01:01'' @ [NL] @
       ''A'' @ [TAB] @ ''1'' @ [TAB] @ ''A*01:01:01N'' @ [NL]))
   = [(''G'', [''HLA-*01:01:01:01'']), (''A'', [''HLA-A*01:01:01N''])]"
  by (simp add: parse_hlala_result_def hlala_line_def hlala_entry_def hlala_allele_def
                ensure_key_def append_at_def text_eval)

section \<open>Properties of the per-sample comparison table\<close>

lemma method_cell_shows: "cell_shows key (map_of d gene) (method_cell key d gene)"
proof (cases "map_of d gene")
  case None
  then show ?thesis by (simp add: method_cell_def cell_shows_def)
next
  case (Some ys)
  show ?thesis
  proof (cases ys)
    case Nil
    with Some show ?thesis by (simp add: method_cell_def cell_shows_def)
  next
    case (Cons y ys')
    have "sort_key key ys \<noteq> []" using Cons by (metis length_sort list.size(3) list.distinct(1) length_0_conv)
    moreover have "sorted (map key (sort_key key ys))" by (rule sorted_sort_key)
    moreover have "mset (sort_key key ys) = mset ys" by (rule mset_sort)
    ultimately show ?thesis using Some Cons by (simp add: method_cell_def cell_shows_def)
  qed
qed

lemma row_genes: "map row_gene (generate_sample_html data) = all_genes_of data"
  by (simp add: generate_sample_html_def comp_def)

text \<open>
  C9. The per-sample table has exactly one row for each gene that is a key of any of
  the four method results, the rows are in ascending lexicographic order of the gene,
  each row has the same four method cells, and a cell that is not the \<open>No data\<close> marker
  lists the stored calls of its gene in lexicographic order of the allele name.
\<close>

theorem gene_method_matrix:
  "sorted (map row_gene (generate_sample_html data)) \<and>
   distinct (map row_gene (generate_sample_html data)) \<and>
   set (map row_gene (generate_sample_html data)) =
     fst ` set (hisat data) \<union> fst ` set (estimation data) \<union>
     fst ` set (optitype data) \<union> fst ` set (hlala data) \<and>
   (\<forall>r \<in> set (generate_sample_html data).
      cell_shows (\<lambda>a. a) (map_of (optitype data) (row_gene r)) (optitype_cell r) \<and>
      cell_shows (\<lambda>a. a) (map_of (hlala data) (row_gene r)) (hlala_cell r) \<and>
      cell_shows (\<lambda>a. a) (map_of (estimation data) (row_gene r)) (estimation_cell r) \<and>
      cell_shows allele (map_of (hisat data) (row_gene r)) (hisat_cell r))"
proof -
  have "sorted (all_genes_of data)" by (simp add: all_genes_of_def)
  moreover have "distinct (all_genes_of data)" by (simp add: all_genes_of_def)
  moreover have "set (all_genes_of data) =
     fst ` set (hisat data) \<union> fst ` set (estimation data) \<union>
     fst ` set (optitype data) \<union> fst ` set (hlala data)"
    by (simp add: all_genes_of_def Un_assoc)
  moreover have "\<forall>r \<in> set (generate_sample_html data).
      cell_shows (\<lambda>a. a) (map_of (optitype data) (row_gene r)) (optitype_cell r) \<and>
      cell_shows (\<lambda>a. a) (map_of (hlala data) (row_gene r)) (hlala_cell r) \<and>
      cell_shows (\<lambda>a. a) (map_of (estimation data) (row_gene r)) (estimation_cell r) \<and>
      cell_shows allele (map_of (hisat data) (row_gene r)) (hisat_cell r)"
    by (auto simp: generate_sample_html_def method_cell_shows)
  ultimately show ?thesis by (simp only: row_genes) 
qed

theorem gene_method_matrix_witness:
  "generate_sample_html
     \<lparr>sample = ''S1'',
      hisat = [(''B'', [\<lparr>rank = 1, allele = ''HLA-B*08:01'', abundance = 60\<rparr>,
                        \<lparr>rank = 2, allele = ''HLA-B*07:02'', abundance = 40\<rparr>])],
      estimation = [],
      optitype = [(''A'', [''HLA-A*02:01'', ''HLA-A*01:01''])],
      hlala = []\<rparr>
   = [\<lparr>row_gene = ''A'', optitype_cell = Alleles [''HLA-A*01:01'', ''HLA-A*02:01''],
       hlala_cell = No_data, estimation_cell = No_data, hisat_cell = No_data\<rparr>,
      \<lparr>row_gene = ''B'', optitype_cell = No_data, hlala_cell = No_data, estimation_cell = No_data,
       hisat_cell = Alleles [\<lparr>rank = 2, allele = ''HLA-B*07:02'', abundance = 40\<rparr>,
                             \<lparr>rank = 1, allele = ''HLA-B*08:01'', abundance = 60\<rparr>]\<rparr>] \<and>
   cell_shows allele
     (Some [\<lparr>rank = 1, allele = ''HLA-B*08:01'', abundance = 60\<rparr>,
            \<lparr>rank = 2, allele = ''HLA-B*07:02'', abundance = 40\<rparr>])
     (Alleles [\<lparr>rank = 2, allele = ''HLA-B*07:02'', abundance = 40\<rparr>,
               \<lparr>rank = 1, allele = ''HLA-B*08:01'', abundance = 60\<rparr>])"
proof -
  let ?data = "\<lparr>sample = ''S1'',
      hisat = [(''B'', [\<lparr>rank = 1, allele = ''HLA-B*08:01'', abundance = 60\<rparr>,
                        \<lparr>rank = 2, allele = ''HLA-B*07:02'', abundance = 40\<rparr>])],
      estimation = [],
      optitype = [(''A'', [''HLA-A*02:01'', ''HLA-A*01:01''])],
      hlala = []\<rparr>"
  have e: "generate_sample_html ?data
   = [\<lparr>row_gene = ''A'', optitype_cell = Alleles [''HLA-A*01:01'', ''HLA-A*02:01''],
       hlala_cell = No_data, estimation_cell = No_data, hisat_cell = No_data\<rparr>,
      \<lparr>row_gene = ''B'', optitype_cell = No_data, hlala_cell = No_data, estimation_cell = No_data,
       hisat_cell = Alleles [\<lparr>rank = 2, allele = ''HLA-B*07:02'', abundance = 40\<rparr>,
                             \<lparr>rank = 1, allele = ''HLA-B*08:01'', abundance = 60\<rparr>]\<rparr>]"
    by (simp add: generate_sample_html_def all_genes_of_def method_cell_def)
  from gene_method_matrix[of ?data] show ?thesis unfolding e by simp
qed

section \<open>Properties of rendering the cross-sample table\<close>

lemma stored_render_cell:
  "stored (fst (render_cell data g s)) s' g' =
     (if s' = s \<and> g' = g then map_option (sort_key rank) (stored data s g) else stored data s' g')"
  by (auto simp: render_cell_def stored_def update_conv' Let_def split: option.splits)

lemma sort_key_twice: "sort_key f (sort_key f xs) = sort_key f xs"
  by (simp add: sort_key_id_if_sorted)

lemma stored_render_row:
  "stored (fst (render_row data g ss)) s' g' =
     (if s' \<in> set ss \<and> g' = g then map_option (sort_key rank) (stored data s' g')
      else stored data s' g')"
proof (induction ss arbitrary: data s' g')
  case Nil
  show ?case by simp
next
  case (Cons s ss)
  obtain d1 c where c: "render_cell data g s = (d1, c)" by (cases "render_cell data g s")
  obtain d2 cs where r: "render_row d1 g ss = (d2, cs)" by (cases "render_row d1 g ss")
  have d1: "stored d1 a b =
     (if a = s \<and> b = g then map_option (sort_key rank) (stored data s g) else stored data a b)"
    for a b
    using stored_render_cell[of data g s a b] c by simp
  have d2: "stored d2 a b =
     (if a \<in> set ss \<and> b = g then map_option (sort_key rank) (stored d1 a b) else stored d1 a b)"
    for a b
    using Cons.IH[of d1 a b] r by simp
  have "fst (render_row data g (s # ss)) = d2" using c r by simp
  then show ?case
    by (auto simp: d1 d2 option.map_comp comp_def sort_key_twice)
qed

lemma stored_render_rows:
  "stored (fst (render_rows data samples gs)) s g =
     (if s \<in> set samples \<and> g \<in> set gs then map_option (sort_key rank) (stored data s g)
      else stored data s g)"
proof (induction gs arbitrary: data s g)
  case Nil
  show ?case by simp
next
  case (Cons g0 gs)
  obtain d1 cells where c: "render_row data g0 samples = (d1, cells)"
    by (cases "render_row data g0 samples")
  obtain d2 rows where r: "render_rows d1 samples gs = (d2, rows)"
    by (cases "render_rows d1 samples gs")
  have d1: "stored d1 a b =
     (if a \<in> set samples \<and> b = g0 then map_option (sort_key rank) (stored data a b)
      else stored data a b)"
    for a b
    using stored_render_row[of data g0 samples a b] c by simp
  have d2: "stored d2 a b =
     (if a \<in> set samples \<and> b \<in> set gs then map_option (sort_key rank) (stored d1 a b)
      else stored d1 a b)"
    for a b
    using Cons.IH[of d1 a b] r by simp
  have "fst (render_rows data samples (g0 # gs)) = d2" using c r by simp
  then show ?case
    by (auto simp: d1 d2 option.map_comp comp_def sort_key_twice)
qed

lemma key_present: "map_of d k = Some v \<Longrightarrow> k \<in> set (map fst d)"
  by (metis domI dom_map_of_conv_image_fst set_map)

lemma render_cell_keys: "map fst (fst (render_cell data g s)) = map fst data"
proof (cases "map_of data s")
  case None
  then show ?thesis by (simp add: render_cell_def)
next
  case (Some results)
  then have "s \<in> set (map fst data)" by (rule key_present)
  with Some show ?thesis
    by (cases "map_of results g") (simp_all add: render_cell_def Let_def update_keys)
qed

lemma render_row_keys: "map fst (fst (render_row data g ss)) = map fst data"
proof (induction ss arbitrary: data)
  case Nil
  show ?case by simp
next
  case (Cons s ss)
  obtain d1 c where c: "render_cell data g s = (d1, c)" by (cases "render_cell data g s")
  obtain d2 cs where r: "render_row d1 g ss = (d2, cs)" by (cases "render_row d1 g ss")
  have "map fst d2 = map fst d1" using Cons.IH[of d1] r by simp
  also have "\<dots> = map fst data" using render_cell_keys[of data g s] c by simp
  finally show ?case using c r by simp
qed

lemma render_rows_keys: "map fst (fst (render_rows data samples gs)) = map fst data"
proof (induction gs arbitrary: data)
  case Nil
  show ?case by simp
next
  case (Cons g gs)
  obtain d1 cells where c: "render_row data g samples = (d1, cells)"
    by (cases "render_row data g samples")
  obtain d2 rows where r: "render_rows d1 samples gs = (d2, rows)"
    by (cases "render_rows d1 samples gs")
  have "map fst d2 = map fst d1" using Cons.IH[of d1] r by simp
  also have "\<dots> = map fst data" using render_row_keys[of data g samples] c by simp
  finally show ?case using c r by simp
qed

lemma generate_html_table_data:
  "fst (generate_html_table data samples genes) = fst (render_rows data samples genes)"
  by (simp add: generate_html_table_def split: prod.splits)

text \<open>
  C7. Rendering the cross-sample table sorts in place: the call sequence stored at a
  rendered (sample, gene) is afterwards the stable sort by rank of the sequence as
  built. No call is edited, added or removed (the calls and their multiplicities are
  the same), no other sequence changes, and the samples of the corpus stay as they
  were and in their order. A sequence built in rank order is therefore left as built.
\<close>

theorem rendering_sorts_stored_calls:
  "stored (fst (generate_html_table data samples genes)) s g =
     (if s \<in> set samples \<and> g \<in> set genes then map_option (sort_key rank) (stored data s g)
      else stored data s g) \<and>
   map_option mset (stored (fst (generate_html_table data samples genes)) s g) =
     map_option mset (stored data s g) \<and>
   map fst (fst (generate_html_table data samples genes)) = map fst data"
proof -
  have a: "stored (fst (generate_html_table data samples genes)) s g =
     (if s \<in> set samples \<and> g \<in> set genes then map_option (sort_key rank) (stored data s g)
      else stored data s g)"
    by (simp only: generate_html_table_data stored_render_rows)
  have "map_option mset (map_option (sort_key rank) (stored data s g)) =
          map_option mset (stored data s g)"
    by (cases "stored data s g") simp_all
  with a have b: "map_option mset (stored (fst (generate_html_table data samples genes)) s g) =
     map_option mset (stored data s g)"
    by simp
  have c: "map fst (fst (generate_html_table data samples genes)) = map fst data"
    by (simp only: generate_html_table_data render_rows_keys)
  from a b c show ?thesis by blast
qed

theorem rendering_sorts_stored_calls_witness:
  "stored (fst (generate_html_table
      [(''S1'', [(''A'', [\<lparr>rank = 2, allele = ''02:01'', abundance = 40\<rparr>,
                          \<lparr>rank = 1, allele = ''01:01'', abundance = 60\<rparr>])])]
      [''S1''] [''A''])) ''S1'' ''A''
   = Some [\<lparr>rank = 1, allele = ''01:01'', abundance = 60\<rparr>,
           \<lparr>rank = 2, allele = ''02:01'', abundance = 40\<rparr>]"
  using rendering_sorts_stored_calls
          [of "[(''S1'', [(''A'', [\<lparr>rank = 2, allele = ''02:01'', abundance = 40\<rparr>,
                                   \<lparr>rank = 1, allele = ''01:01'', abundance = 60\<rparr>])])]"
              "[''S1'']" "[''A'']" "''S1''" "''A''"]
  by (simp add: stored_def)

text \<open>
  A report that lists rank 2 before rank 1: the sequence is stored in file order, and
  after rendering it is stored in rank order.
\<close>

theorem rendering_reorders_stored_calls:
  "collect_all_results (Directory [(''S1'', Some
      [''2 ranked A*02:01 (abundance: 40.00%)'' @ [NL] @ ''1 ranked A*01:01 (abundance: 60.00%)''])])
   = Inr ([], Some ([(''S1'', [(''A'', [\<lparr>rank = 2, allele = ''02:01'', abundance = 40\<rparr>,
                                      \<lparr>rank = 1, allele = ''01:01'', abundance = 60\<rparr>])])],
                    [''S1''], [''A''])) \<and>
   fst (generate_html_table
      [(''S1'', [(''A'', [\<lparr>rank = 2, allele = ''02:01'', abundance = 40\<rparr>,
                          \<lparr>rank = 1, allele = ''01:01'', abundance = 60\<rparr>])])]
      [''S1''] [''A''])
   = [(''S1'', [(''A'', [\<lparr>rank = 1, allele = ''01:01'', abundance = 60\<rparr>,
                         \<lparr>rank = 2, allele = ''02:01'', abundance = 40\<rparr>])])]"
proof -
  have m: "findall (''2 ranked A*02:01 (abundance: 40.00%)'' @ [NL] @ ''1 ranked A*01:01 (abundance: 60.00%)'')
        = [(''2'', ''A'', ''02:01'', ''40.00''), (''1'', ''A'', ''01:01'', ''60.00'')]"
    by (simp add: match_at_def isdigit_def gene_char_def isspace_def abundance_char_def Let_def)
  have p: "parse_report_file (''2 ranked A*02:01 (abundance: 40.00%)'' @ [NL] @ ''1 ranked A*01:01 (abundance: 60.00%)'')
        = Inr [(''A'', [\<lparr>rank = 2, allele = ''02:01'', abundance = 40\<rparr>,
                        \<lparr>rank = 1, allele = ''01:01'', abundance = 60\<rparr>])]"
    unfolding parse_report_file_def m
    by (simp add: report_step_def float_of_def int_of_def digits_value_def
                  int_max_str_digits_def ensure_key_def append_at_def isdigit_def Let_def)
  have c: "collect_all_results (Directory [(''S1'', Some
      [''2 ranked A*02:01 (abundance: 40.00%)'' @ [NL] @ ''1 ranked A*01:01 (abundance: 60.00%)''])])
   = Inr ([], Some ([(''S1'', [(''A'', [\<lparr>rank = 2, allele = ''02:01'', abundance = 40\<rparr>,
                                      \<lparr>rank = 1, allele = ''01:01'', abundance = 60\<rparr>])])],
                    [''S1''], [''A'']))"
    by (simp add: collect_all_results_def collect_step_def p[simplified] genes_of_def)
  have g: "fst (generate_html_table
      [(''S1'', [(''A'', [\<lparr>rank = 2, allele = ''02:01'', abundance = 40\<rparr>,
                          \<lparr>rank = 1, allele = ''01:01'', abundance = 60\<rparr>])])]
      [''S1''] [''A''])
   = [(''S1'', [(''A'', [\<lparr>rank = 1, allele = ''01:01'', abundance = 60\<rparr>,
                         \<lparr>rank = 2, allele = ''02:01'', abundance = 40\<rparr>])])]"
    by (simp add: generate_html_table_def render_cell_def Let_def)
  from c g show ?thesis by (rule conjI)
qed

section \<open>Properties of the extractors on blank input\<close>

lemma universal_newlines_chars: "set (universal_newlines t) \<subseteq> insert NL (set t)"
  by (induction t rule: universal_newlines.induct) auto

lemma split_lines_chars:
  "l \<in> set (split_lines cur t) \<Longrightarrow> set l \<subseteq> set cur \<union> set t"
  by (induction cur t rule: split_lines.induct) (auto split: if_splits)

lemma isspace_NL: "isspace NL"
  by (simp add: isspace_def)

lemma readlines_blank:
  assumes "\<forall>c \<in> set content. isspace c" and "l \<in> set (readlines content)"
  shows "\<forall>c \<in> set l. isspace c"
proof
  fix c assume c: "c \<in> set l"
  from assms(2) have "l \<in> set (split_lines [] (universal_newlines content))"
    by (simp add: readlines_def)
  from split_lines_chars[OF this] c
  have "c \<in> set (universal_newlines content)" by auto
  with universal_newlines_chars[of content] have "c = NL \<or> c \<in> set content" by auto
  with assms(1) isspace_NL show "isspace c" by auto
qed

lemma strip_blank:
  assumes "\<forall>c \<in> set s. isspace c"
  shows "strip s = []"
proof -
  have "dropWhile isspace s = []" using assms by simp
  then have "rev (dropWhile isspace (rev (dropWhile isspace s))) = rev (dropWhile isspace (rev []))"
    by (simp only:)
  then show ?thesis by (simp add: strip_def)
qed

lemma foldl_unchanged: "\<forall>x \<in> set xs. f acc x = acc \<Longrightarrow> foldl f acc xs = acc"
  by (induction xs) auto

lemma not_digit_if_space: "isspace c \<Longrightarrow> \<not> isdigit c"
  by (auto simp: isspace_def isdigit_def)

lemma findall_blank: "\<forall>c \<in> set content. isspace c \<Longrightarrow> findall content = []"
proof (induction content rule: findall.induct)
  case 1
  show ?case by simp
next
  case (2 c cs)
  from "2.prems" have "\<not> isdigit c" by (simp add: not_digit_if_space)
  then have "match_at (c # cs) = None" by (simp add: match_at_def)
  with 2 show ?case by simp
qed

lemma fields_within_simps:
  "fields_within A []"
  "fields_within A (r # rs) \<longleftrightarrow> (\<forall>f \<in> set r. set f \<subseteq> A) \<and> fields_within A rs"
  by (simp_all add: fields_within_def)

lemma records_within_simps:
  "records_within A (Inl e) \<longleftrightarrow> e = csv_Error"
  "records_within A (Inr rs) \<longleftrightarrow> fields_within A rs"
  by (simp_all add: records_within_def)

lemma records_within_emit:
  "\<forall>f \<in> set r. set f \<subseteq> A \<Longrightarrow> records_within A res \<Longrightarrow> records_within A (emit r res)"
  by (cases res) (simp_all add: emit_def records_within_simps fields_within_simps)

lemma csv_reader_within:
  "set fld \<subseteq> A \<Longrightarrow> \<forall>f \<in> set flds. set f \<subseteq> A \<Longrightarrow> set t \<subseteq> A \<Longrightarrow>
     records_within A (csv_reader st fld flds t)"
proof (induction st fld flds t rule: csv_reader.induct)
  case (1 st fld flds)
  then show ?case by (simp add: records_within_simps fields_within_simps)
next
  case (2 fld flds c cs)
  then show ?case by (simp add: records_within_simps fields_within_simps records_within_emit)
next
  case (3 fld flds c cs)
  then show ?case by (simp add: records_within_simps fields_within_simps records_within_emit)
next
  case (4 fld flds c cs)
  then show ?case by (simp add: records_within_simps fields_within_simps records_within_emit)
next
  case (5 fld flds c cs)
  then show ?case by (simp add: records_within_simps fields_within_simps records_within_emit)
next
  case (6 fld flds c cs)
  then show ?case by (auto simp: records_within_simps fields_within_simps records_within_emit)
qed

lemma isl_emit: "isl (emit r res) \<longleftrightarrow> isl res"
  by (cases res) (simp_all add: emit_def)

lemma csv_reader_returns:
  "length fld + length t \<le> field_limit \<Longrightarrow> \<not> isl (csv_reader st fld flds t)"
proof (induction st fld flds t rule: csv_reader.induct)
  case (1 st fld flds)
  then show ?case by simp
next
  case (2 fld flds c cs)
  then show ?case by (simp add: isl_emit)
next
  case (3 fld flds c cs)
  then show ?case by (simp add: isl_emit)
next
  case (4 fld flds c cs)
  then show ?case by (simp add: isl_emit)
next
  case (5 fld flds c cs)
  then show ?case by (simp add: isl_emit)
next
  case (6 fld flds c cs)
  then show ?case by (simp add: isl_emit)
qed

lemma universal_newlines_length: "length (universal_newlines t) \<le> length t"
  by (induction t rule: universal_newlines.induct) auto

lemma universal_newlines_no_CR: "CR \<notin> set t \<Longrightarrow> universal_newlines t = t"
  by (induction t rule: universal_newlines.induct) auto

lemma foldl_update_keys:
  "fst ` set (foldl (\<lambda>d (k, v). AList.update k v d) acc kvs) = fst ` set acc \<union> fst ` set kvs"
proof (induction kvs arbitrary: acc)
  case Nil
  show ?case by simp
next
  case (Cons kv kvs)
  obtain k v where kv: "kv = (k, v)" by (cases kv)
  have "fst ` set (foldl (\<lambda>d (k, v). AList.update k v d) (AList.update k v acc) kvs)
          = fst ` set (AList.update k v acc) \<union> fst ` set kvs"
    by (rule Cons.IH)
  also have "\<dots> = fst ` set acc \<union> fst ` set (kv # kvs)"
    unfolding dom_update kv by auto
  finally show ?case by (simp add: kv)
qed

lemma dict_row_keys: "map_of (dict_row fieldnames row) k = Some v \<Longrightarrow> k \<in> set fieldnames"
proof -
  assume "map_of (dict_row fieldnames row) k = Some v"
  then have "k \<in> fst ` set (dict_row fieldnames row)" by (metis domI dom_map_of_conv_image_fst)
  then show ?thesis
    unfolding dict_row_def foldl_update_keys by (auto dest: set_zip_leftD)
qed

lemma DictReader_cases:
  "DictReader content = Inl csv_Error \<or>
   DictReader content = Inr [] \<or>
   (\<exists>fieldnames rows.
      csv_reader START_RECORD [] [] (universal_newlines content) = Inr (fieldnames # rows) \<and>
      DictReader content = Inr (map (dict_row fieldnames) (filter (\<lambda>r. r \<noteq> []) rows)))"
proof (cases "csv_reader START_RECORD [] [] (universal_newlines content)")
  case (Inl e)
  have "records_within UNIV (csv_reader START_RECORD [] [] (universal_newlines content))"
    by (rule csv_reader_within) simp_all
  with Inl have "e = csv_Error" by (simp add: records_within_simps)
  with Inl show ?thesis by (simp add: DictReader_def)
next
  case (Inr rs)
  then show ?thesis by (cases rs) (simp_all add: DictReader_def)
qed

lemma DictReader_returns:
  assumes "length content \<le> field_limit"
  shows "\<exists>rows. DictReader content = Inr rows"
proof -
  have "length [] + length (universal_newlines content) \<le> field_limit"
    using assms universal_newlines_length[of content] by simp
  from csv_reader_returns[OF this, of START_RECORD "[]"]
  obtain rs where "csv_reader START_RECORD [] [] (universal_newlines content) = Inr rs"
    by (cases "csv_reader START_RECORD [] [] (universal_newlines content)") auto
  then show ?thesis by (cases rs) (simp_all add: DictReader_def)
qed

lemma DictReader_blank_keys:
  assumes "\<forall>c \<in> set content. isspace c" and "DictReader content = Inr dicts"
      and "row \<in> set dicts" and "map_of row k = Some v"
  shows "\<forall>c \<in> set k. isspace c"
proof -
  let ?t = "universal_newlines content"
  from DictReader_cases[of content] assms(2,3) obtain fieldnames rows where
      cr: "csv_reader START_RECORD [] [] ?t = Inr (fieldnames # rows)"
      and d: "dicts = map (dict_row fieldnames) (filter (\<lambda>r. r \<noteq> []) rows)"
    by auto
  from assms(3) obtain r where row: "row = dict_row fieldnames r" unfolding d by auto
  from assms(4) have "k \<in> set fieldnames" unfolding row by (rule dict_row_keys)
  moreover have "records_within (set ?t) (csv_reader START_RECORD [] [] ?t)"
    by (rule csv_reader_within) simp_all
  then have "\<forall>f \<in> set fieldnames. set f \<subseteq> set ?t"
    unfolding cr by (simp add: records_within_simps fields_within_simps)
  ultimately have "set k \<subseteq> set ?t" by blast
  then have "set k \<subseteq> insert NL (set content)"
    using universal_newlines_chars[of content] by blast
  with assms(1) isspace_NL show ?thesis by blast
qed

lemma gene_code_not_blank:
  assumes "gene \<in> set [''A'', ''B'', ''C'']"
  shows "\<exists>c \<in> set gene. \<not> isspace c"
proof -
  have "\<not> isspace CHR ''A''" "\<not> isspace CHR ''B''" "\<not> isspace CHR ''C''"
    by (simp_all add: isspace_def)
  with assms show ?thesis by auto
qed

lemma optitype_alleles_blank:
  assumes "\<forall>c \<in> set content. isspace c" and "DictReader content = Inr dicts"
      and "row \<in> set dicts" and "gene \<in> set [''A'', ''B'', ''C'']"
  shows "optitype_alleles row gene = []"
proof -
  have "map_of row (gene @ i) = None" for i
  proof (cases "map_of row (gene @ i)")
    case None
    then show ?thesis .
  next
    case (Some v)
    from DictReader_blank_keys[OF assms(1,2,3) Some] have "\<forall>c \<in> set gene. isspace c" by simp
    with gene_code_not_blank[OF assms(4)] show ?thesis by blast
  qed
  then show ?thesis by (simp add: optitype_alleles_def)
qed

lemma optitype_row_blank:
  assumes "\<forall>c \<in> set content. isspace c" and "DictReader content = Inr dicts"
      and "row \<in> set dicts"
  shows "optitype_row results row = results"
  unfolding optitype_row_def
  by (rule foldl_unchanged) (simp add: optitype_gene_def optitype_alleles_blank[OF assms])

lemma parse_optitype_blank:
  assumes "\<forall>c \<in> set content. isspace c"
  shows "parse_optitype_result (Some (content # others)) = Inr [] \<or>
         parse_optitype_result (Some (content # others)) = Inl csv_Error"
proof (cases "DictReader content")
  case (Inl e)
  with DictReader_cases[of content] have "e = csv_Error" by auto
  with Inl show ?thesis by (simp add: parse_optitype_result_def)
next
  case (Inr dicts)
  have "\<forall>row \<in> set dicts. optitype_row [] row = []"
    using optitype_row_blank[OF assms Inr] by blast
  then have "foldl optitype_row [] dicts = []" by (rule foldl_unchanged)
  with Inr show ?thesis by (simp add: parse_optitype_result_def)
qed

lemma csv_in_field_run:
  "c \<noteq> NL \<Longrightarrow> c \<noteq> TAB \<Longrightarrow> length fld + n \<le> field_limit \<Longrightarrow>
     csv_reader IN_FIELD fld flds (replicate n c @ rest) =
     csv_reader IN_FIELD (fld @ replicate n c) flds rest"
proof (induction n arbitrary: fld)
  case 0
  show ?case by simp
next
  case (Suc n)
  from Suc.prems have "\<not> field_limit \<le> length fld" by simp
  with Suc.prems have "csv_reader IN_FIELD fld flds (replicate (Suc n) c @ rest) =
          csv_reader IN_FIELD (fld @ [c]) flds (replicate n c @ rest)"
    by simp
  also have "\<dots> = csv_reader IN_FIELD ((fld @ [c]) @ replicate n c) flds rest"
    using Suc.prems by (intro Suc.IH) simp_all
  finally show ?case by (simp add: replicate_append_same)
qed

text \<open>
  C8. On a text that is empty or holds only whitespace the ranked-report, the
  delimited-tuple and the fixed-column-text extractors return the empty result and do
  not raise. The TSV-column extractor returns the empty result or raises \<open>csv.Error\<close>,
  and it returns the empty result whenever the text has at most 131072 characters.
\<close>

theorem extractors_blank_input:
  assumes "\<forall>c \<in> set text. isspace c"
  shows "parse_report_file text = Inr [] \<and> parse_hisat_report text = Inr [] \<and>
         parse_estimation_result text = [] \<and>
         parse_hlala_result (Some text) = [] \<and>
         (parse_optitype_result (Some (text # others)) = Inr [] \<or>
          parse_optitype_result (Some (text # others)) = Inl csv_Error) \<and>
         (length text \<le> field_limit \<longrightarrow> parse_optitype_result (Some (text # others)) = Inr [])"
proof -
  have blank: "strip l = []" if "l \<in> set (readlines text)" for l
    using readlines_blank[OF assms that] by (rule strip_blank)
  have "findall text = []" using assms by (rule findall_blank)
  then have reports: "parse_report_file text = Inr []" "parse_hisat_report text = Inr []"
    by (simp_all add: parse_report_file_def parse_hisat_report_def)
  have "\<forall>l \<in> set (readlines text). estimation_line [] l = []"
    by (simp add: estimation_line_def estimation_entry_def blank)
  then have est: "parse_estimation_result text = []"
    unfolding parse_estimation_result_def by (rule foldl_unchanged)
  have "\<forall>l \<in> set (tl (readlines text)). hlala_line [] l = []"
  proof
    fix l assume "l \<in> set (tl (readlines text))"
    then have "l \<in> set (readlines text)" by (cases "readlines text") auto
    then show "hlala_line [] l = []" by (simp add: hlala_line_def hlala_entry_def blank)
  qed
  then have hla: "parse_hlala_result (Some text) = []"
    unfolding parse_hlala_result_def by (simp add: foldl_unchanged)
  note opt = parse_optitype_blank[OF assms, of others]
  have small: "length text \<le> field_limit \<longrightarrow> parse_optitype_result (Some (text # others)) = Inr []"
  proof
    assume "length text \<le> field_limit"
    from DictReader_returns[OF this] obtain rows where "DictReader text = Inr rows" ..
    then have "parse_optitype_result (Some (text # others)) \<noteq> Inl csv_Error"
      by (simp add: parse_optitype_result_def)
    with opt show "parse_optitype_result (Some (text # others)) = Inr []" by blast
  qed
  from reports est hla opt small show ?thesis by blast
qed

theorem extractors_blank_input_witness:
  "parse_report_file ('' '' @ [TAB, NL, CR, NL] @ ''  '') = Inr [] \<and>
   parse_hisat_report ('' '' @ [TAB, NL, CR, NL] @ ''  '') = Inr [] \<and>
   parse_estimation_result ('' '' @ [TAB, NL, CR, NL] @ ''  '') = [] \<and>
   parse_hlala_result (Some ('' '' @ [TAB, NL, CR, NL] @ ''  '')) = [] \<and>
   parse_optitype_result (Some (('' '' @ [TAB, NL, CR, NL] @ ''  '') # [])) = Inr []"
proof -
  have h: "\<forall>c \<in> set ('' '' @ [TAB, NL, CR, NL] @ ''  ''). isspace c"
    by (simp add: isspace_def)
  have l: "length ('' '' @ [TAB, NL, CR, NL] @ ''  '') \<le> field_limit"
    by (simp add: field_limit_def)
  from extractors_blank_input[OF h, of "[]"] l show ?thesis by blast
qed

text \<open>
  A result file of 131073 spaces: its one field passes the field size limit, and the
  TSV-column extractor raises.
\<close>

theorem optitype_raises_on_long_blank_field:
  "parse_optitype_result (Some [replicate 131073 CHR '' '']) = Inl csv_Error"
proof -
  let ?sp = "CHR '' ''"
  have n: "(131073::nat) = Suc (Suc 131071)" by simp
  have r: "replicate 131073 ?sp = ?sp # (replicate 131071 ?sp @ [?sp])"
    by (simp only: n replicate_Suc replicate_append_same)
  have "CR \<notin> set (replicate 131073 ?sp)" by simp
  then have u: "universal_newlines (replicate 131073 ?sp) = replicate 131073 ?sp"
    by (rule universal_newlines_no_CR)
  have s: "csv_reader START_RECORD [] [] (?sp # (replicate 131071 ?sp @ [?sp]))
             = csv_reader IN_FIELD [?sp] [] (replicate 131071 ?sp @ [?sp])"
    by simp
  have run: "csv_reader IN_FIELD [?sp] [] (replicate 131071 ?sp @ [?sp])
               = csv_reader IN_FIELD ([?sp] @ replicate 131071 ?sp) [] [?sp]"
    by (rule csv_in_field_run) (simp_all add: field_limit_def)
  have over: "csv_reader IN_FIELD ([?sp] @ replicate 131071 ?sp) [] [?sp] = Inl csv_Error"
    by (simp add: field_limit_def)
  have "csv_reader START_RECORD [] [] (universal_newlines (replicate 131073 ?sp))
          = csv_reader START_RECORD [] [] (replicate 131073 ?sp)"
    by (simp only: u)
  also have "\<dots> = csv_reader START_RECORD [] [] (?sp # (replicate 131071 ?sp @ [?sp]))"
    by (simp only: r)
  also note s
  also note run
  also note over
  finally have "csv_reader START_RECORD [] [] (universal_newlines (replicate 131073 ?sp))
                  = Inl csv_Error" .
  then show ?thesis by (simp add: parse_optitype_result_def DictReader_def)
qed

section \<open>Properties of the TSV-column extractor\<close>

lemma map_of_optitype_gene:
  "map_of (optitype_gene row results gene) g =
     (if g = gene \<and> optitype_alleles row gene \<noteq> [] then Some (optitype_alleles row gene)
      else map_of results g)"
  by (simp add: optitype_gene_def Let_def update_conv')

lemma map_of_optitype_row:
  "map_of (optitype_row results row) g =
     (if g \<in> {''A'', ''B'', ''C''} \<and> optitype_alleles row g \<noteq> [] then Some (optitype_alleles row g)
      else map_of results g)"
  by (auto simp: optitype_row_def map_of_optitype_gene)

lemma optitype_fold_last:
  "map_of (foldl optitype_row acc rows) g =
     (let rs = filter (\<lambda>r. optitype_alleles r g \<noteq> []) rows in
      if g \<in> {''A'', ''B'', ''C''} \<and> rs \<noteq> [] then Some (optitype_alleles (last rs) g)
      else map_of acc g)"
proof (induction rows rule: rev_induct)
  case Nil
  show ?case by simp
next
  case (snoc row rows)
  show ?case
  proof (cases "optitype_alleles row g = []")
    case True
    then show ?thesis using snoc by (simp add: map_of_optitype_row Let_def)
  next
    case False
    then show ?thesis using snoc by (auto simp: map_of_optitype_row Let_def)
  qed
qed

lemma last_dropWhile: "dropWhile P xs \<noteq> [] \<Longrightarrow> last (dropWhile P xs) = last xs"
  by (induction xs) (auto split: if_splits)

lemma strip_ends:
  assumes "strip s \<noteq> []"
  shows "\<not> isspace (hd (strip s)) \<and> \<not> isspace (last (strip s))"
proof -
  let ?d = "dropWhile isspace s"
  let ?e = "dropWhile isspace (rev ?d)"
  from assms have e: "?e \<noteq> []" unfolding strip_def by (metis rev_is_Nil_conv)
  then have d: "?d \<noteq> []" by (metis dropWhile.simps(1) rev.simps(1))
  have "last (strip s) = hd ?e" unfolding strip_def by (metis last_rev e)
  moreover have "\<not> isspace (hd ?e)" using e by (rule hd_dropWhile)
  moreover have "hd (strip s) = last ?e" unfolding strip_def by (metis hd_rev e)
  moreover have "last ?e = last (rev ?d)" using e by (rule last_dropWhile)
  moreover have "last (rev ?d) = hd ?d" by (metis last_rev d)
  moreover have "\<not> isspace (hd ?d)" using d by (rule hd_dropWhile)
  ultimately show ?thesis by (simp only:) blast
qed

lemma optitype_alleles_columns:
  "optitype_alleles row g =
     map (\<lambda>v. ''HLA-'' @ strip v)
       (filter (\<lambda>v. strip v \<noteq> [])
          (concat (map (\<lambda>i. case map_of row (g @ i) of Some (Some v) \<Rightarrow> [v] | _ \<Rightarrow> [])
                       [''1'', ''2''])))"
proof -
  have s: "strip [] = []" by (simp add: strip_def)
  show ?thesis
    by (auto simp: optitype_alleles_def s split: option.splits)
qed

lemma optitype_alleles_trimmed:
  assumes "a \<in> set (optitype_alleles row g)"
  shows "\<exists>v. a = ''HLA-'' @ v \<and> v \<noteq> [] \<and> \<not> isspace (hd v) \<and> \<not> isspace (last v)"
proof -
  from assms obtain w where "a = ''HLA-'' @ strip w" and "strip w \<noteq> []"
    unfolding optitype_alleles_columns by auto
  with strip_ends[of w] show ?thesis by blast
qed

lemma parse_optitype_rows:
  "DictReader content = Inr rows \<Longrightarrow>
     parse_optitype_result (Some (content # others)) = Inr (foldl optitype_row [] rows)"
  by (simp add: parse_optitype_result_def)

lemma csv_in_field_plain:
  "TAB \<notin> set v \<Longrightarrow> NL \<notin> set v \<Longrightarrow> length fld + length v \<le> field_limit \<Longrightarrow>
     csv_reader IN_FIELD fld flds (v @ rest) = csv_reader IN_FIELD (fld @ v) flds rest"
proof (induction v arbitrary: fld)
  case Nil
  show ?case by simp
next
  case (Cons c cs)
  from Cons.prems have "csv_reader IN_FIELD fld flds ((c # cs) @ rest)
                          = csv_reader IN_FIELD (fld @ [c]) flds (cs @ rest)"
    by auto
  also have "\<dots> = csv_reader IN_FIELD ((fld @ [c]) @ cs) flds rest"
    using Cons.prems by (intro Cons.IH) simp_all
  finally show ?case by simp
qed

lemma csv_start_field_plain:
  assumes "plain v"
  shows "csv_reader START_FIELD [] flds (v @ TAB # rest) = csv_reader START_FIELD [] (flds @ [v]) rest"
    and "csv_reader START_FIELD [] flds (v @ NL # rest)
           = emit (flds @ [v]) (csv_reader START_RECORD [] [] rest)"
proof -
  have "csv_reader START_FIELD [] flds (v @ TAB # rest) = csv_reader START_FIELD [] (flds @ [v]) rest \<and>
        csv_reader START_FIELD [] flds (v @ NL # rest)
           = emit (flds @ [v]) (csv_reader START_RECORD [] [] rest)"
  proof (cases v)
    case Nil
    then show ?thesis by simp
  next
    case (Cons c cs)
    with assms have c: "c \<noteq> TAB" "c \<noteq> NL" "c \<noteq> CHR 0x22"
        and cs: "TAB \<notin> set cs" "NL \<notin> set cs" "length [c] + length cs \<le> field_limit"
      by (auto simp: plain_def)
    have s: "csv_reader START_FIELD [] flds ((c # cs) @ x # rest)
               = csv_reader IN_FIELD ([c] @ cs) flds (x # rest)" for x
    proof -
      have "csv_reader START_FIELD [] flds ((c # cs) @ x # rest)
              = csv_reader IN_FIELD [c] flds (cs @ x # rest)"
        using c by simp
      also have "\<dots> = csv_reader IN_FIELD ([c] @ cs) flds (x # rest)"
        using cs by (rule csv_in_field_plain)
      finally show ?thesis .
    qed
    show ?thesis unfolding Cons s by simp
  qed
  then show "csv_reader START_FIELD [] flds (v @ TAB # rest) = csv_reader START_FIELD [] (flds @ [v]) rest"
    and "csv_reader START_FIELD [] flds (v @ NL # rest)
           = emit (flds @ [v]) (csv_reader START_RECORD [] [] rest)"
    by blast+
qed

lemma tsv_line_Cons2: "tsv_line (v # w # ws) = v @ TAB # tsv_line (w # ws)"
  by (simp add: tsv_line_def)

lemma csv_fields_plain:
  "\<forall>v \<in> set (v0 # vs). plain v \<Longrightarrow>
     csv_reader START_FIELD [] flds (tsv_line (v0 # vs) @ NL # rest)
       = emit (flds @ v0 # vs) (csv_reader START_RECORD [] [] rest)"
proof (induction vs arbitrary: v0 flds)
  case Nil
  then have "plain v0" by simp
  from csv_start_field_plain(2)[OF this] show ?case by (simp add: tsv_line_def)
next
  case (Cons w ws)
  then have p: "plain v0" and q: "\<forall>v \<in> set (w # ws). plain v" by simp_all
  have "csv_reader START_FIELD [] flds (tsv_line (v0 # w # ws) @ NL # rest)
          = csv_reader START_FIELD [] flds (v0 @ TAB # (tsv_line (w # ws) @ NL # rest))"
    by (simp add: tsv_line_Cons2)
  also have "\<dots> = csv_reader START_FIELD [] (flds @ [v0]) (tsv_line (w # ws) @ NL # rest)"
    using p by (rule csv_start_field_plain(1))
  also have "\<dots> = emit ((flds @ [v0]) @ w # ws) (csv_reader START_RECORD [] [] rest)"
    using q by (rule Cons.IH)
  finally show ?case by simp
qed

lemma tsv_line_chars: "set (tsv_line r) \<subseteq> insert TAB (\<Union>v \<in> set r. set v)"
  by (cases r) (auto simp: tsv_line_def)

lemma csv_record_plain:
  assumes "\<forall>v \<in> set r. plain v" and "tsv_line r \<noteq> []"
  shows "csv_reader START_RECORD [] [] (tsv_line r @ NL # rest)
           = emit r (csv_reader START_RECORD [] [] rest)"
proof -
  from assms(2) obtain v0 vs where r: "r = v0 # vs" by (cases r) (auto simp: tsv_line_def)
  from assms(2) obtain c cs where l: "tsv_line r = c # cs" by (cases "tsv_line r") auto
  have "c \<in> set (tsv_line r)" by (simp add: l)
  with tsv_line_chars[of r] assms(1) have "c \<noteq> NL" by (auto simp: plain_def)
  then have "csv_reader START_RECORD [] [] (tsv_line r @ NL # rest)
               = csv_reader START_FIELD [] [] (tsv_line r @ NL # rest)"
    by (simp add: l)
  also have "\<dots> = emit ([] @ v0 # vs) (csv_reader START_RECORD [] [] rest)"
    unfolding r using assms(1)[unfolded r] by (rule csv_fields_plain)
  finally show ?thesis by (simp add: r)
qed

lemma csv_table_plain:
  "\<forall>r \<in> set rows. tsv_line r \<noteq> [] \<and> (\<forall>v \<in> set r. plain v) \<Longrightarrow>
     csv_reader START_RECORD [] [] (tsv_table rows) = Inr rows"
proof (induction rows)
  case Nil
  show ?case by (simp add: tsv_table_def)
next
  case (Cons r rows)
  have "csv_reader START_RECORD [] [] (tsv_table (r # rows))
          = csv_reader START_RECORD [] [] (tsv_line r @ NL # tsv_table rows)"
    by (simp add: tsv_table_def)
  also have "\<dots> = emit r (csv_reader START_RECORD [] [] (tsv_table rows))"
    using Cons.prems by (intro csv_record_plain) simp_all
  also have "\<dots> = Inr (r # rows)"
    using Cons by (simp add: emit_def)
  finally show ?case .
qed

lemma tsv_table_no_CR:
  "\<forall>r \<in> set rows. \<forall>v \<in> set r. plain v \<Longrightarrow> CR \<notin> set (tsv_table rows)"
proof
  assume a: "\<forall>r \<in> set rows. \<forall>v \<in> set r. plain v" and "CR \<in> set (tsv_table rows)"
  then obtain r where r: "r \<in> set rows" and "CR \<in> set (tsv_line r)"
    unfolding tsv_table_def set_concat by (auto split: if_splits)
  with tsv_line_chars[of r] obtain v where "v \<in> set r" and "CR \<in> set v"
    by auto
  with a r show False by (auto simp: plain_def)
qed

lemma DictReader_table:
  assumes "\<forall>r \<in> set (h # rows). tsv_line r \<noteq> [] \<and> (\<forall>v \<in> set r. plain v)"
  shows "DictReader (tsv_table (h # rows)) = Inr (map (dict_row h) rows)"
proof -
  from assms have "CR \<notin> set (tsv_table (h # rows))" by (intro tsv_table_no_CR) blast
  then have u: "universal_newlines (tsv_table (h # rows)) = tsv_table (h # rows)"
    by (rule universal_newlines_no_CR)
  have c: "csv_reader START_RECORD [] [] (tsv_table (h # rows)) = Inr (h # rows)"
    using assms by (rule csv_table_plain)
  from assms have "\<forall>r \<in> set rows. r \<noteq> []" by (auto simp: tsv_line_def)
  then have f: "filter (\<lambda>r. r \<noteq> []) rows = rows" by (simp add: filter_id_conv)
  show ?thesis by (simp add: DictReader_def u c f)
qed

lemma optitype_alleles_header:
  "optitype_alleles (dict_row optitype_header [a1, a2, b1, b2, c1, c2]) ''A'' = kept_values [a1, a2]"
  "optitype_alleles (dict_row optitype_header [a1, a2, b1, b2, c1, c2]) ''B'' = kept_values [b1, b2]"
  "optitype_alleles (dict_row optitype_header [a1, a2, b1, b2, c1, c2]) ''C'' = kept_values [c1, c2]"
  unfolding optitype_alleles_columns
  by (simp_all add: dict_row_def optitype_header_def kept_values_def)

lemma six_values:
  assumes "length r = 6"
  shows "r = [r ! 0, r ! 1, r ! 2, r ! 3, r ! 4, r ! 5]"
proof -
  from assms obtain a1 a2 b1 b2 c1 c2 where "r = [a1, a2, b1, b2, c1, c2]"
    by (auto simp: length_Suc_conv numeral_eq_Suc)
  then show ?thesis by simp
qed

lemma optitype_alleles_six:
  assumes "length r = 6"
  shows "optitype_alleles (dict_row optitype_header r) ''A'' = kept_values [r ! 0, r ! 1]"
    and "optitype_alleles (dict_row optitype_header r) ''B'' = kept_values [r ! 2, r ! 3]"
    and "optitype_alleles (dict_row optitype_header r) ''C'' = kept_values [r ! 4, r ! 5]"
  using optitype_alleles_header[of "r ! 0" "r ! 1" "r ! 2" "r ! 3" "r ! 4" "r ! 5"]
        six_values[OF assms]
  by simp_all

lemma last_kept_rows:
  assumes "\<forall>r \<in> set rows. optitype_alleles (dict_row h r) g = F r" and "g \<in> {''A'', ''B'', ''C''}"
  shows "map_of (foldl optitype_row [] (map (dict_row h) rows)) g = last_kept (map F rows)"
proof -
  let ?G = "\<lambda>r. optitype_alleles (dict_row h r) g"
  have m: "map F rows = map ?G rows" using assms(1) by simp
  have f: "filter (\<lambda>d. optitype_alleles d g \<noteq> []) (map (dict_row h) rows)
             = map (dict_row h) (filter (\<lambda>r. ?G r \<noteq> []) rows)"
    by (simp add: filter_map comp_def)
  have k: "filter (\<lambda>x. x \<noteq> []) (map ?G rows) = map ?G (filter (\<lambda>r. ?G r \<noteq> []) rows)"
    by (simp add: filter_map comp_def)
  show ?thesis
    unfolding optitype_fold_last m last_kept_def f k
    using assms(2) by (simp add: Let_def last_map)
qed

text \<open>
  C6. Whatever the table, a result of the TSV-column extractor has only the genes A, B
  and C as keys and never an empty list, and every value it holds is the prefix \<open>HLA-\<close>
  followed by a non-empty text without whitespace at either end; each of A, B, C is
  mapped to what the last row with a value for it gives, and a gene no row gives a
  value is absent. For a table with the header A1, A2, B1, B2, C1, C2 and rows of six
  plain values: a row gives a gene the values of its columns 1 and 2 that are not
  blank, trimmed and prefixed, in column order and with repetitions kept; the result
  maps the gene to what the last row with such a value gives it, and a gene without
  such a value in any row is absent.
\<close>

theorem optitype_gene_columns:
  "(parse_optitype_result tsv_files = Inr results \<and> map_of results gene = Some alleles \<longrightarrow>
      alleles \<noteq> [] \<and> gene \<in> {''A'', ''B'', ''C''} \<and>
      (\<forall>a \<in> set alleles.
         \<exists>v. a = ''HLA-'' @ v \<and> v \<noteq> [] \<and> \<not> isspace (hd v) \<and> \<not> isspace (last v))) \<and>
   (DictReader content = Inr rows \<longrightarrow>
      (\<exists>res. parse_optitype_result (Some (content # others)) = Inr res \<and>
         map_of res g =
           (let rs = filter (\<lambda>r. optitype_alleles r g \<noteq> []) rows in
            if g \<in> {''A'', ''B'', ''C''} \<and> rs \<noteq> [] then Some (optitype_alleles (last rs) g)
            else None))) \<and>
   ((\<forall>r \<in> set table. length r = 6 \<and> (\<forall>v \<in> set r. plain v)) \<longrightarrow>
      (\<exists>res. parse_optitype_result (Some (tsv_table (optitype_header # table) # others)) = Inr res \<and>
         map_of res ''A'' = last_kept (map (\<lambda>r. kept_values [r ! 0, r ! 1]) table) \<and>
         map_of res ''B'' = last_kept (map (\<lambda>r. kept_values [r ! 2, r ! 3]) table) \<and>
         map_of res ''C'' = last_kept (map (\<lambda>r. kept_values [r ! 4, r ! 5]) table)))"
proof -
  have one: "parse_optitype_result tsv_files = Inr results \<and> map_of results gene = Some alleles \<longrightarrow>
      alleles \<noteq> [] \<and> gene \<in> {''A'', ''B'', ''C''} \<and>
      (\<forall>a \<in> set alleles.
         \<exists>v. a = ''HLA-'' @ v \<and> v \<noteq> [] \<and> \<not> isspace (hd v) \<and> \<not> isspace (last v))"
  proof
    assume a: "parse_optitype_result tsv_files = Inr results \<and> map_of results gene = Some alleles"
    then obtain content others' dicts where d: "DictReader content = Inr dicts"
        and r: "results = foldl optitype_row [] dicts"
      by (auto simp: parse_optitype_result_def split: option.splits list.splits sum.splits)
    let ?rs = "filter (\<lambda>r. optitype_alleles r gene \<noteq> []) dicts"
    from a r have m: "map_of (foldl optitype_row [] dicts) gene = Some alleles" by simp
    then have g: "gene \<in> {''A'', ''B'', ''C''}" and ne: "?rs \<noteq> []"
        and al: "alleles = optitype_alleles (last ?rs) gene"
      unfolding optitype_fold_last by (auto simp: Let_def split: if_splits)
    from ne have "last ?rs \<in> set ?rs" by (rule last_in_set)
    then have "optitype_alleles (last ?rs) gene \<noteq> []" by simp
    with al have n: "alleles \<noteq> []" by simp
    have t: "\<forall>a \<in> set alleles.
         \<exists>v. a = ''HLA-'' @ v \<and> v \<noteq> [] \<and> \<not> isspace (hd v) \<and> \<not> isspace (last v)"
      unfolding al using optitype_alleles_trimmed by blast
    from n g t
    show "alleles \<noteq> [] \<and> gene \<in> {''A'', ''B'', ''C''} \<and>
      (\<forall>a \<in> set alleles.
         \<exists>v. a = ''HLA-'' @ v \<and> v \<noteq> [] \<and> \<not> isspace (hd v) \<and> \<not> isspace (last v))"
      by (intro conjI)
  qed
  have two: "DictReader content = Inr rows \<longrightarrow>
      (\<exists>res. parse_optitype_result (Some (content # others)) = Inr res \<and>
         map_of res g =
           (let rs = filter (\<lambda>r. optitype_alleles r g \<noteq> []) rows in
            if g \<in> {''A'', ''B'', ''C''} \<and> rs \<noteq> [] then Some (optitype_alleles (last rs) g)
            else None))"
    by (simp add: parse_optitype_rows optitype_fold_last Let_def)
  have three: "(\<forall>r \<in> set table. length r = 6 \<and> (\<forall>v \<in> set r. plain v)) \<longrightarrow>
      (\<exists>res. parse_optitype_result (Some (tsv_table (optitype_header # table) # others)) = Inr res \<and>
         map_of res ''A'' = last_kept (map (\<lambda>r. kept_values [r ! 0, r ! 1]) table) \<and>
         map_of res ''B'' = last_kept (map (\<lambda>r. kept_values [r ! 2, r ! 3]) table) \<and>
         map_of res ''C'' = last_kept (map (\<lambda>r. kept_values [r ! 4, r ! 5]) table))"
  proof
    assume a: "\<forall>r \<in> set table. length r = 6 \<and> (\<forall>v \<in> set r. plain v)"
    let ?res = "foldl optitype_row [] (map (dict_row optitype_header) table)"
    have h: "tsv_line optitype_header \<noteq> [] \<and> (\<forall>v \<in> set optitype_header. plain v)"
      by (simp add: optitype_header_def tsv_line_def plain_def field_limit_def)
    have l: "tsv_line r \<noteq> []" if "length r = 6" for r
      using six_values[OF that] by (cases r) (auto simp: tsv_line_def)
    from a h l have "\<forall>r \<in> set (optitype_header # table). tsv_line r \<noteq> [] \<and> (\<forall>v \<in> set r. plain v)"
      by simp
    then have "DictReader (tsv_table (optitype_header # table))
                 = Inr (map (dict_row optitype_header) table)"
      by (rule DictReader_table)
    then have p: "parse_optitype_result (Some (tsv_table (optitype_header # table) # others)) = Inr ?res"
      by (rule parse_optitype_rows)
    have "map_of ?res ''A'' = last_kept (map (\<lambda>r. kept_values [r ! 0, r ! 1]) table)"
      using a by (intro last_kept_rows) (simp_all add: optitype_alleles_six)
    moreover have "map_of ?res ''B'' = last_kept (map (\<lambda>r. kept_values [r ! 2, r ! 3]) table)"
      using a by (intro last_kept_rows) (simp_all add: optitype_alleles_six)
    moreover have "map_of ?res ''C'' = last_kept (map (\<lambda>r. kept_values [r ! 4, r ! 5]) table)"
      using a by (intro last_kept_rows) (simp_all add: optitype_alleles_six)
    ultimately show "\<exists>res. parse_optitype_result (Some (tsv_table (optitype_header # table) # others)) = Inr res \<and>
         map_of res ''A'' = last_kept (map (\<lambda>r. kept_values [r ! 0, r ! 1]) table) \<and>
         map_of res ''B'' = last_kept (map (\<lambda>r. kept_values [r ! 2, r ! 3]) table) \<and>
         map_of res ''C'' = last_kept (map (\<lambda>r. kept_values [r ! 4, r ! 5]) table)"
      using p by blast
  qed
  from one two three show ?thesis by blast
qed

theorem optitype_gene_columns_witness:
  "parse_optitype_result (Some
      [''A1'' @ [TAB] @ ''A2'' @ [TAB] @ ''B1'' @ [TAB] @ ''B2'' @ [TAB] @ ''C1'' @ [TAB] @ ''C2'' @ [NL] @
       ''02:01'' @ [TAB] @ ''03:01'' @ [TAB] @ [TAB] @ [TAB] @ ''07:02'' @ [TAB] @ ''07:02''])
     = Inr [(''A'', [''HLA-02:01'', ''HLA-03:01'']), (''C'', [''HLA-07:02'', ''HLA-07:02''])] \<and>
   (\<exists>res. parse_optitype_result (Some
      [''A1'' @ [TAB] @ ''A2'' @ [TAB] @ ''B1'' @ [TAB] @ ''B2'' @ [TAB] @ ''C1'' @ [TAB] @ ''C2'' @ [NL] @
       ''02:01'' @ [TAB] @ ''03:01'' @ [TAB] @ [TAB] @ [TAB] @ ''07:02'' @ [TAB] @ ''07:02'']) = Inr res \<and>
      map_of res ''B'' = None \<and> map_of res ''C'' = Some [''HLA-07:02'', ''HLA-07:02'']) \<and>
   tsv_table [optitype_header,
              [''02:01'', ''03:01'', [], [], ''07:02'', ''07:02''],
              ['' 11:01'', [], ''  '', [], [], []]]
     = ''A1'' @ [TAB] @ ''A2'' @ [TAB] @ ''B1'' @ [TAB] @ ''B2'' @ [TAB] @ ''C1'' @ [TAB] @ ''C2'' @ [NL] @
       ''02:01'' @ [TAB] @ ''03:01'' @ [TAB] @ [TAB] @ [TAB] @ ''07:02'' @ [TAB] @ ''07:02'' @ [NL] @
       '' 11:01'' @ [TAB] @ [TAB] @ ''  '' @ [TAB] @ [TAB] @ [TAB] @ [NL] \<and>
   (\<exists>res. parse_optitype_result (Some
             [tsv_table [optitype_header,
                         [''02:01'', ''03:01'', [], [], ''07:02'', ''07:02''],
                         ['' 11:01'', [], ''  '', [], [], []]]]) = Inr res \<and>
      map_of res ''A'' = Some [''HLA-11:01''] \<and> map_of res ''B'' = None \<and>
      map_of res ''C'' = Some [''HLA-07:02'', ''HLA-07:02''])"
proof -
  let ?t = "''A1'' @ [TAB] @ ''A2'' @ [TAB] @ ''B1'' @ [TAB] @ ''B2'' @ [TAB] @ ''C1'' @ [TAB] @ ''C2'' @ [NL] @
       ''02:01'' @ [TAB] @ ''03:01'' @ [TAB] @ [TAB] @ [TAB] @ ''07:02'' @ [TAB] @ ''07:02''"
  let ?row = "[(''A1'', Some ''02:01''), (''A2'', Some ''03:01''), (''B1'', Some []),
               (''B2'', Some []), (''C1'', Some ''07:02''), (''C2'', Some ''07:02'')]"
  let ?res = "[(''A'', [''HLA-02:01'', ''HLA-03:01'']), (''C'', [''HLA-07:02'', ''HLA-07:02''])]"
  let ?table = "[[''02:01'', ''03:01'', [], [], ''07:02'', ''07:02''],
                 ['' 11:01'', [], ''  '', [], [], []]]"
  have d: "DictReader ?t = Inr [?row]"
    by (simp add: DictReader_def dict_row_def emit_def field_limit_def)
  have a: "optitype_alleles ?row ''A'' = [''HLA-02:01'', ''HLA-03:01'']"
    by (simp add: optitype_alleles_def strip_def isspace_def)
  have b: "optitype_alleles ?row ''B'' = []"
    by (simp add: optitype_alleles_def strip_def isspace_def)
  have c: "optitype_alleles ?row ''C'' = [''HLA-07:02'', ''HLA-07:02'']"
    by (simp add: optitype_alleles_def strip_def isspace_def)
  have p: "parse_optitype_result (Some [?t]) = Inr ?res"
    unfolding parse_optitype_rows[OF d]
    by (simp add: optitype_row_def optitype_gene_def a b c)
  have q: "map_of ?res ''C'' = Some [''HLA-07:02'', ''HLA-07:02'']" by simp
  have w: "\<forall>r \<in> set ?table. length r = 6 \<and> (\<forall>v \<in> set r. plain v)"
    by (simp add: plain_def field_limit_def)
  have x: "tsv_table (optitype_header # ?table)
     = ''A1'' @ [TAB] @ ''A2'' @ [TAB] @ ''B1'' @ [TAB] @ ''B2'' @ [TAB] @ ''C1'' @ [TAB] @ ''C2'' @ [NL] @
       ''02:01'' @ [TAB] @ ''03:01'' @ [TAB] @ [TAB] @ [TAB] @ ''07:02'' @ [TAB] @ ''07:02'' @ [NL] @
       '' 11:01'' @ [TAB] @ [TAB] @ ''  '' @ [TAB] @ [TAB] @ [TAB] @ [NL]"
    by (simp add: tsv_table_def tsv_line_def optitype_header_def)
  have k: "last_kept (map (\<lambda>r. kept_values [r ! 0, r ! 1]) ?table) = Some [''HLA-11:01'']"
          "last_kept (map (\<lambda>r. kept_values [r ! 2, r ! 3]) ?table) = None"
          "last_kept (map (\<lambda>r. kept_values [r ! 4, r ! 5]) ?table) = Some [''HLA-07:02'', ''HLA-07:02'']"
    by (simp_all add: last_kept_def kept_values_def strip_def isspace_def)
  from optitype_gene_columns[where tsv_files = "Some [?t]" and results = ?res and gene = "''C''"
                               and alleles = "[''HLA-07:02'', ''HLA-07:02'']" and content = ?t
                               and rows = "[?row]" and others = "[]" and g = "''B''"
                               and table = ?table]
       optitype_gene_columns[where tsv_files = "Some [?t]" and results = ?res and gene = "''C''"
                               and alleles = "[''HLA-07:02'', ''HLA-07:02'']" and content = ?t
                               and rows = "[?row]" and others = "[]" and g = "''C''"
                               and table = ?table]
       p q d b c w
  have y: "(\<exists>res. parse_optitype_result (Some [?t]) = Inr res \<and>
      map_of res ''B'' = None \<and> map_of res ''C'' = Some [''HLA-07:02'', ''HLA-07:02''])"
    and z: "(\<exists>res. parse_optitype_result (Some [tsv_table (optitype_header # ?table)]) = Inr res \<and>
      map_of res ''A'' = Some [''HLA-11:01''] \<and> map_of res ''B'' = None \<and>
      map_of res ''C'' = Some [''HLA-07:02'', ''HLA-07:02''])"
    unfolding k by (simp_all add: Let_def)
  from p y x z show ?thesis by (intro conjI)
qed

text \<open>
  A row whose A columns hold a padded value and a blank: the stored value is trimmed,
  and the blank column, though not empty, gives no value.
\<close>

theorem optitype_trims_and_drops_blank_values:
  "parse_optitype_result (Some
      [''A1'' @ [TAB] @ ''A2'' @ [TAB] @ ''B1'' @ [TAB] @ ''B2'' @ [TAB] @ ''C1'' @ [TAB] @ ''C2'' @ [NL] @
       '' 02:01 '' @ [TAB] @ '' '' @ [TAB] @ '' '' @ [TAB] @ [TAB] @ ''07:02'' @ [TAB] @ ''07:02''])
     = Inr [(''A'', [''HLA-02:01'']), (''C'', [''HLA-07:02'', ''HLA-07:02''])]"
proof -
  let ?t = "''A1'' @ [TAB] @ ''A2'' @ [TAB] @ ''B1'' @ [TAB] @ ''B2'' @ [TAB] @ ''C1'' @ [TAB] @ ''C2'' @ [NL] @
       '' 02:01 '' @ [TAB] @ '' '' @ [TAB] @ '' '' @ [TAB] @ [TAB] @ ''07:02'' @ [TAB] @ ''07:02''"
  let ?row = "[(''A1'', Some '' 02:01 ''), (''A2'', Some '' ''), (''B1'', Some '' ''),
               (''B2'', Some []), (''C1'', Some ''07:02''), (''C2'', Some ''07:02'')]"
  have d: "DictReader ?t = Inr [?row]"
    by (simp add: DictReader_def dict_row_def emit_def field_limit_def)
  have a: "optitype_alleles ?row ''A'' = [''HLA-02:01'']"
    by (simp add: optitype_alleles_def strip_def isspace_def)
  have b: "optitype_alleles ?row ''B'' = []"
    by (simp add: optitype_alleles_def strip_def isspace_def)
  have c: "optitype_alleles ?row ''C'' = [''HLA-07:02'', ''HLA-07:02'']"
    by (simp add: optitype_alleles_def strip_def isspace_def)
  show ?thesis
    unfolding parse_optitype_rows[OF d]
    by (simp add: optitype_row_def optitype_gene_def a b c)
qed

section \<open>Properties of the ranked-report extractors\<close>

lemma map_of_ensure_key:
  "map_of (ensure_key k d) x =
     (if x = k then Some (case map_of d k of None \<Rightarrow> [] | Some vs \<Rightarrow> vs) else map_of d x)"
  by (auto simp: ensure_key_def update_conv' split: option.splits)

text \<open>
  A loop that, for each match of gene \<open>g\<close>, makes sure \<open>g\<close> is a key and appends
  the calls related by \<open>R\<close> to the matches that satisfy \<open>keep\<close>.
\<close>

lemma fold_result_gene:
  assumes step: "\<And>acc m acc'. f acc m = Inr acc' \<Longrightarrow>
            (if fst (snd m) = g
             then \<exists>new. map_of acc' g = Some ((case map_of acc g of None \<Rightarrow> [] | Some vs \<Rightarrow> vs) @ new)
                        \<and> list_all2 R (filter keep [m]) new
             else map_of acc' g = map_of acc g)"
      and run: "fold_result f acc ms = Inr res"
  shows "if gene_matches g ms = [] then map_of res g = map_of acc g
         else \<exists>new. map_of res g = Some ((case map_of acc g of None \<Rightarrow> [] | Some vs \<Rightarrow> vs) @ new)
                    \<and> list_all2 R (filter keep (gene_matches g ms)) new"
  using run
proof (induction ms arbitrary: acc)
  case Nil
  then show ?case by (simp add: gene_matches_def)
next
  case (Cons m ms)
  from Cons.prems obtain acc1 where a1: "f acc m = Inr acc1" and rest: "fold_result f acc1 ms = Inr res"
    by (cases "f acc m") auto
  note IH = Cons.IH[OF rest]
  note st = step[OF a1]
  show ?case
  proof (cases "fst (snd m) = g")
    case False
    with st have same: "map_of acc1 g = map_of acc g" by simp
    from False have gm: "gene_matches g (m # ms) = gene_matches g ms" by (simp add: gene_matches_def)
    show ?thesis using IH unfolding gm same .
  next
    case True
    with st obtain new1 where
        n1: "map_of acc1 g = Some ((case map_of acc g of None \<Rightarrow> [] | Some vs \<Rightarrow> vs) @ new1)"
        and r1: "list_all2 R (filter keep [m]) new1"
      by auto
    from True have gm: "gene_matches g (m # ms) = m # gene_matches g ms" by (simp add: gene_matches_def)
    show ?thesis
    proof (cases "gene_matches g ms = []")
      case True
      with IH have "map_of res g = map_of acc1 g" by simp
      with n1 r1 True show ?thesis unfolding gm by (auto split: if_splits)
    next
      case False
      with IH obtain new2 where
          n2: "map_of res g = Some ((case map_of acc1 g of None \<Rightarrow> [] | Some vs \<Rightarrow> vs) @ new2)"
          and r2: "list_all2 R (filter keep (gene_matches g ms)) new2"
        by auto
      from n1 n2 have "map_of res g =
          Some ((case map_of acc g of None \<Rightarrow> [] | Some vs \<Rightarrow> vs) @ (new1 @ new2))"
        by simp
      moreover have "filter keep (m # gene_matches g ms) =
                       filter keep [m] @ filter keep (gene_matches g ms)"
        by simp
      then have "list_all2 R (filter keep (m # gene_matches g ms)) (new1 @ new2)"
        using list_all2_appendI[OF r1 r2] by (simp only:)
      ultimately show ?thesis unfolding gm by auto
    qed
  qed
qed

lemma int_of_Inr: "int_of s = Inr r \<longleftrightarrow> length s \<le> int_max_str_digits \<and> r = digits_value s"
  by (auto simp: int_of_def)

lemma report_step_gene:
  assumes "report_step acc m = Inr acc'"
  shows "if fst (snd m) = g
         then \<exists>new. map_of acc' g = Some ((case map_of acc g of None \<Rightarrow> [] | Some vs \<Rightarrow> vs) @ new)
                    \<and> list_all2 (stored_as (\<lambda>a. a)) (filter (\<lambda>m. True) [m]) new
         else map_of acc' g = map_of acc g"
proof -
  obtain rs gn a ab where m: "m = (rs, gn, a, ab)" by (cases m)
  from assms obtain r x where r: "int_of rs = Inr r" and x: "float_of ab = Inr x"
      and acc': "acc' = append_at gn \<lparr>rank = r, allele = a, abundance = x\<rparr> (ensure_key gn acc)"
    unfolding m report_step_def by (auto simp: Let_def split: sum.splits)
  show ?thesis
    unfolding acc' m by (simp add: map_of_append_ensure stored_as_def x r)
qed

lemma hisat_step_gene:
  assumes "hisat_step acc m = Inr acc'"
  shows "if fst (snd m) = g
         then \<exists>new. map_of acc' g = Some ((case map_of acc g of None \<Rightarrow> [] | Some vs \<Rightarrow> vs) @ new)
                    \<and> list_all2 (stored_as (\<lambda>a. ''HLA-'' @ g @ ''*'' @ a))
                         (filter (\<lambda>m. digits_value (fst m) \<le> 2) [m]) new
         else map_of acc' g = map_of acc g"
proof -
  obtain rs gn a ab where m: "m = (rs, gn, a, ab)" by (cases m)
  from assms obtain r where r: "int_of rs = Inr r"
    unfolding m hisat_step_def by (auto simp: Let_def split: sum.splits)
  then have v: "r = digits_value rs" by (simp add: int_of_Inr)
  show ?thesis
  proof (cases "r \<le> 2")
    case True
    with assms r obtain x where x: "float_of ab = Inr x"
      and acc': "acc' = append_at gn \<lparr>rank = r, allele = ''HLA-'' @ gn @ ''*'' @ a, abundance = x\<rparr>
                          (ensure_key gn acc)"
      unfolding m hisat_step_def by (auto simp: Let_def split: sum.splits)
    show ?thesis
      unfolding acc' m using True v by (simp add: map_of_append_ensure stored_as_def x r)
  next
    case False
    with assms r have acc': "acc' = ensure_key gn acc"
      unfolding m hisat_step_def by (auto simp: Let_def)
    show ?thesis
      unfolding acc' m using False v by (simp add: map_of_ensure_key)
  qed
qed

lemma fold_result_returns_iff:
  assumes "\<And>acc x. (\<exists>acc'. f acc x = Inr acc') \<longleftrightarrow> ok x"
  shows "(\<exists>res. fold_result f acc xs = Inr res) \<longleftrightarrow> (\<forall>x \<in> set xs. ok x)"
proof (induction xs arbitrary: acc)
  case Nil
  show ?case by (metis fold_result.simps(1) empty_iff list.set(1))
next
  case (Cons x xs)
  show ?case
  proof (cases "f acc x")
    case (Inl e)
    then have "\<not> ok x" using assms[of acc x] by simp
    with Inl show ?thesis by simp
  next
    case (Inr acc1)
    then have "ok x" using assms[of acc x] by auto
    with Inr Cons.IH[of acc1] show ?thesis by simp
  qed
qed

lemma report_step_returns:
  "(\<exists>acc'. report_step acc m = Inr acc') \<longleftrightarrow>
     length (fst m) \<le> int_max_str_digits \<and> (\<exists>x. float_of (snd (snd (snd m))) = Inr x)"
  by (cases m) (auto simp: report_step_def int_of_def Let_def split: sum.splits)

lemma hisat_step_returns:
  "(\<exists>acc'. hisat_step acc m = Inr acc') \<longleftrightarrow>
     length (fst m) \<le> int_max_str_digits \<and>
     (digits_value (fst m) \<le> 2 \<longrightarrow> (\<exists>x. float_of (snd (snd (snd m))) = Inr x))"
  by (cases m) (auto simp: hisat_step_def int_of_def Let_def split: sum.splits)

lemma collect_sample_data_hisat:
  assumes "collect_sample_data name fs = Inr data"
  shows "case hisat_reports fs of
           Some (report # others) \<Rightarrow> parse_hisat_report report = Inr (hisat data)
         | _ \<Rightarrow> hisat data = []"
  using assms
  by (auto simp: collect_sample_data_def split: option.splits list.splits sum.splits)

lemma collect_fold_stored:
  "fold_result collect_step (msgs, data, samples) entries = Inr (msgs', data', samples') \<Longrightarrow>
   map_of data' s = Some results \<Longrightarrow>
     map_of data s = Some results \<or>
     (\<exists>report others. (s, Some (report # others)) \<in> set entries \<and>
                      parse_report_file report = Inr results)"
proof (induction entries arbitrary: msgs data samples)
  case Nil
  then show ?case by simp
next
  case (Cons entry entries)
  from Cons.prems(1) obtain st1 where s: "collect_step (msgs, data, samples) entry = Inr st1"
      and r: "fold_result collect_step st1 entries = Inr (msgs', data', samples')"
    by (cases "collect_step (msgs, data, samples) entry") auto
  obtain msgs1 data1 samples1 where st1: "st1 = (msgs1, data1, samples1)" by (rule prod_cases3)
  obtain name reports where entry: "entry = (name, reports)" by (cases entry)
  from Cons.IH[OF r[unfolded st1] Cons.prems(2)]
  consider "map_of data1 s = Some results"
    | "\<exists>report others. (s, Some (report # others)) \<in> set entries \<and>
                       parse_report_file report = Inr results"
    by blast
  then show ?case
  proof cases
    case 1
    have "data1 = data \<or>
          (\<exists>report others res. reports = Some (report # others) \<and>
             parse_report_file report = Inr res \<and> data1 = AList.update name res data)"
      using s unfolding st1 entry
      by (auto simp: collect_step_def split: option.splits list.splits sum.splits if_splits)
    then show ?thesis
    proof
      assume "data1 = data"
      with 1 show ?thesis by simp
    next
      assume "\<exists>report others res. reports = Some (report # others) \<and>
             parse_report_file report = Inr res \<and> data1 = AList.update name res data"
      then obtain report others res where rp: "reports = Some (report # others)"
          and p: "parse_report_file report = Inr res"
          and d: "data1 = AList.update name res data"
        by blast
      show ?thesis
      proof (cases "s = name")
        case True
        with 1 d have "res = results" by (simp add: update_conv')
        with True rp p entry show ?thesis by auto
      next
        case False
        with 1 d have "map_of data s = Some results" by (simp add: update_conv')
        then show ?thesis by simp
      qed
    qed
  next
    case 2
    then show ?thesis by auto
  qed
qed

text \<open>
  C1. \<open>parse_report_file\<close> keeps every match of the pattern: a gene is a key of the
  result exactly when the text has a match for it, and its sequence holds one call for
  each of its matches, of every rank, in text order. It returns exactly when no match
  has a rank of more than 4300 digits or an abundance that is no decimal number.
  \<open>parse_hisat_report\<close> restricts the sequence itself: a gene is a key exactly when the
  text has a match for it, and its sequence holds the matches of rank at most 2 only,
  the allele named \<open>HLA-<gene>*<allele>\<close>; it returns exactly when no match has a rank
  of more than 4300 digits and no match of rank at most 2 a malformed abundance. The
  callers filter nothing: \<open>collect_sample_data\<close> stores the result of
  \<open>parse_hisat_report\<close>, and every entry of the \<open>all_data\<close> of \<open>collect_all_results\<close> is
  the result of \<open>parse_report_file\<close> on a report of its sample.
\<close>

theorem report_extractors_keep:
  "(parse_report_file content = Inr results \<longrightarrow>
      (case map_of results g of
         None \<Rightarrow> gene_matches g (findall content) = []
       | Some calls \<Rightarrow>
           gene_matches g (findall content) \<noteq> [] \<and>
           list_all2 (stored_as (\<lambda>a. a)) (gene_matches g (findall content)) calls)) \<and>
   ((\<exists>res. parse_report_file content = Inr res) \<longleftrightarrow>
      (\<forall>m \<in> set (findall content).
         length (fst m) \<le> int_max_str_digits \<and> (\<exists>x. float_of (snd (snd (snd m))) = Inr x))) \<and>
   (parse_hisat_report content = Inr kept \<longrightarrow>
      (case map_of kept g of
         None \<Rightarrow> gene_matches g (findall content) = []
       | Some calls \<Rightarrow>
           gene_matches g (findall content) \<noteq> [] \<and>
           list_all2 (stored_as (\<lambda>a. ''HLA-'' @ g @ ''*'' @ a))
             (filter (\<lambda>m. digits_value (fst m) \<le> 2) (gene_matches g (findall content))) calls)) \<and>
   ((\<exists>res. parse_hisat_report content = Inr res) \<longleftrightarrow>
      (\<forall>m \<in> set (findall content).
         length (fst m) \<le> int_max_str_digits \<and>
         (digits_value (fst m) \<le> 2 \<longrightarrow> (\<exists>x. float_of (snd (snd (snd m))) = Inr x)))) \<and>
   (collect_sample_data name fs = Inr data \<longrightarrow>
      (case hisat_reports fs of
         Some (report # others) \<Rightarrow> parse_hisat_report report = Inr (hisat data)
       | _ \<Rightarrow> hisat data = [])) \<and>
   (collect_all_results (Directory entries) = Inr (msgs, Some (corpus, samples, genes)) \<and>
    map_of corpus s = Some per_gene \<longrightarrow>
      (\<exists>report others. (s, Some (report # others)) \<in> set entries \<and>
                       parse_report_file report = Inr per_gene))"
proof -
  have one: "parse_report_file content = Inr results \<longrightarrow>
      (case map_of results g of
         None \<Rightarrow> gene_matches g (findall content) = []
       | Some calls \<Rightarrow>
           gene_matches g (findall content) \<noteq> [] \<and>
           list_all2 (stored_as (\<lambda>a. a)) (gene_matches g (findall content)) calls)"
  proof
    assume "parse_report_file content = Inr results"
    then have run: "fold_result report_step [] (findall content) = Inr results"
      by (simp add: parse_report_file_def)
    from fold_result_gene[of report_step g "stored_as (\<lambda>a. a)" "\<lambda>m. True", OF report_step_gene run]
    show "case map_of results g of
         None \<Rightarrow> gene_matches g (findall content) = []
       | Some calls \<Rightarrow>
           gene_matches g (findall content) \<noteq> [] \<and>
           list_all2 (stored_as (\<lambda>a. a)) (gene_matches g (findall content)) calls"
      by (auto split: if_splits option.splits)
  qed
  have two: "(\<exists>res. parse_report_file content = Inr res) \<longleftrightarrow>
      (\<forall>m \<in> set (findall content).
         length (fst m) \<le> int_max_str_digits \<and> (\<exists>x. float_of (snd (snd (snd m))) = Inr x))"
    unfolding parse_report_file_def
    by (rule fold_result_returns_iff) (rule report_step_returns)
  have three: "parse_hisat_report content = Inr kept \<longrightarrow>
      (case map_of kept g of
         None \<Rightarrow> gene_matches g (findall content) = []
       | Some calls \<Rightarrow>
           gene_matches g (findall content) \<noteq> [] \<and>
           list_all2 (stored_as (\<lambda>a. ''HLA-'' @ g @ ''*'' @ a))
             (filter (\<lambda>m. digits_value (fst m) \<le> 2) (gene_matches g (findall content))) calls)"
  proof
    assume "parse_hisat_report content = Inr kept"
    then have run: "fold_result hisat_step [] (findall content) = Inr kept"
      by (simp add: parse_hisat_report_def)
    from fold_result_gene[of hisat_step g "stored_as (\<lambda>a. ''HLA-'' @ g @ ''*'' @ a)"
                             "\<lambda>m. digits_value (fst m) \<le> 2", OF hisat_step_gene run]
    show "case map_of kept g of
         None \<Rightarrow> gene_matches g (findall content) = []
       | Some calls \<Rightarrow>
           gene_matches g (findall content) \<noteq> [] \<and>
           list_all2 (stored_as (\<lambda>a. ''HLA-'' @ g @ ''*'' @ a))
             (filter (\<lambda>m. digits_value (fst m) \<le> 2) (gene_matches g (findall content))) calls"
      by (auto split: if_splits option.splits)
  qed
  have four: "(\<exists>res. parse_hisat_report content = Inr res) \<longleftrightarrow>
      (\<forall>m \<in> set (findall content).
         length (fst m) \<le> int_max_str_digits \<and>
         (digits_value (fst m) \<le> 2 \<longrightarrow> (\<exists>x. float_of (snd (snd (snd m))) = Inr x)))"
    unfolding parse_hisat_report_def
    by (rule fold_result_returns_iff) (rule hisat_step_returns)
  have five: "collect_sample_data name fs = Inr data \<longrightarrow>
      (case hisat_reports fs of
         Some (report # others) \<Rightarrow> parse_hisat_report report = Inr (hisat data)
       | _ \<Rightarrow> hisat data = [])"
    using collect_sample_data_hisat by blast
  have six: "collect_all_results (Directory entries) = Inr (msgs, Some (corpus, samples, genes)) \<and>
    map_of corpus s = Some per_gene \<longrightarrow>
      (\<exists>report others. (s, Some (report # others)) \<in> set entries \<and>
                       parse_report_file report = Inr per_gene)"
  proof
    assume a: "collect_all_results (Directory entries) = Inr (msgs, Some (corpus, samples, genes)) \<and>
               map_of corpus s = Some per_gene"
    then obtain samples0 where
        f: "fold_result collect_step ([], [], []) (sort_key fst entries) = Inr (msgs, corpus, samples0)"
      by (auto simp: collect_all_results_def split: sum.splits)
    from collect_fold_stored[OF f] a
    show "\<exists>report others. (s, Some (report # others)) \<in> set entries \<and>
                          parse_report_file report = Inr per_gene"
      by auto
  qed
  from one two three four five six show ?thesis by blast
qed


theorem report_extractors_keep_witness:
  "parse_report_file (''1 ranked A*01:01 (abundance: 55.50%)'' @ [NL] @
                      ''3 ranked A*03:01 (abundance: 4.50%)'')
     = Inr [(''A'', [\<lparr>rank = 1, allele = ''01:01'', abundance = 111 / 2\<rparr>,
                     \<lparr>rank = 3, allele = ''03:01'', abundance = 9 / 2\<rparr>])] \<and>
   list_all2 (stored_as (\<lambda>a. a))
     [(''1'', ''A'', ''01:01'', ''55.50''), (''3'', ''A'', ''03:01'', ''4.50'')]
     [\<lparr>rank = 1, allele = ''01:01'', abundance = 111 / 2\<rparr>,
      \<lparr>rank = 3, allele = ''03:01'', abundance = 9 / 2\<rparr>] \<and>
   list_all2 (stored_as (\<lambda>a. ''HLA-'' @ ''A'' @ ''*'' @ a))
     [(''1'', ''A'', ''01:01'', ''55.50'')]
     [\<lparr>rank = 1, allele = ''HLA-A*01:01'', abundance = 111 / 2\<rparr>] \<and>
   collect_sample_data ''s1''
       \<lparr>hisat_reports = Some [''1 ranked A*01:01 (abundance: 55.50%)'' @ [NL] @
                               ''3 ranked A*03:01 (abundance: 4.50%)''],
        estimation_file = None, optitype_files = None, hlala_file = None\<rparr>
     = Inr \<lparr>sample = ''s1'',
            hisat = [(''A'', [\<lparr>rank = 1, allele = ''HLA-A*01:01'', abundance = 111 / 2\<rparr>])],
            estimation = [], optitype = [], hlala = []\<rparr> \<and>
   collect_all_results
       (Directory [(''s1'', Some [''1 ranked A*01:01 (abundance: 55.50%)'' @ [NL] @
                                  ''3 ranked A*03:01 (abundance: 4.50%)''])])
     = Inr ([], Some ([(''s1'', [(''A'', [\<lparr>rank = 1, allele = ''01:01'', abundance = 111 / 2\<rparr>,
                                          \<lparr>rank = 3, allele = ''03:01'', abundance = 9 / 2\<rparr>])])],
                      [''s1''], [''A'']))"
proof -
  let ?t = "''1 ranked A*01:01 (abundance: 55.50%)'' @ [NL] @ ''3 ranked A*03:01 (abundance: 4.50%)''"
  let ?r = "[(''A'', [\<lparr>rank = 1, allele = ''01:01'', abundance = 111 / 2\<rparr>,
                      \<lparr>rank = 3, allele = ''03:01'', abundance = 9 / 2\<rparr>])]"
  let ?k = "[(''A'', [\<lparr>rank = 1, allele = ''HLA-A*01:01'', abundance = 111 / 2\<rparr>])]"
  let ?fs = "\<lparr>hisat_reports = Some [?t], estimation_file = None, optitype_files = None,
              hlala_file = None\<rparr>"
  let ?d = "\<lparr>sample = ''s1'', hisat = ?k, estimation = [], optitype = [], hlala = []\<rparr>"
  have m: "findall ?t = [(''1'', ''A'', ''01:01'', ''55.50''), (''3'', ''A'', ''03:01'', ''4.50'')]"
    by (simp add: match_at_def isdigit_def gene_char_def isspace_def abundance_char_def Let_def)
  have p: "parse_report_file ?t = Inr ?r"
    unfolding parse_report_file_def m
    by (simp add: report_step_def float_of_def int_of_def digits_value_def int_max_str_digits_def
                  ensure_key_def append_at_def isdigit_def Let_def)
  have h: "parse_hisat_report ?t = Inr ?k"
    unfolding parse_hisat_report_def m
    by (simp add: hisat_step_def float_of_def int_of_def digits_value_def int_max_str_digits_def
                  ensure_key_def append_at_def isdigit_def Let_def)
  have c: "collect_sample_data ''s1'' ?fs = Inr ?d"
    unfolding collect_sample_data_def by (simp add: h[simplified] parse_optitype_result_def
                                                    parse_hlala_result_def)
  have a: "collect_all_results (Directory [(''s1'', Some [?t])])
             = Inr ([], Some ([(''s1'', ?r)], [''s1''], [''A'']))"
    unfolding collect_all_results_def
    by (simp add: collect_step_def p[simplified] genes_of_def)
  have g: "gene_matches ''A'' (findall ?t)
             = [(''1'', ''A'', ''01:01'', ''55.50''), (''3'', ''A'', ''03:01'', ''4.50'')]"
    unfolding m by (simp add: gene_matches_def)
  have i: "filter (\<lambda>m. digits_value (fst m) \<le> 2)
             [(''1'', ''A'', ''01:01'', ''55.50''), (''3'', ''A'', ''03:01'', ''4.50'')]
           = [(''1'', ''A'', ''01:01'', ''55.50'')]"
    by (simp add: digits_value_def)
  from report_extractors_keep[of ?t ?r "''A''" ?k "''s1''" ?fs ?d "[(''s1'', Some [?t])]" "[]"
                                 "[(''s1'', ?r)]" "[''s1'']" "[''A'']" "''s1''" ?r] p h c a
  show ?thesis unfolding g i by simp
qed

text \<open>
  A report with a match of rank 3: \<open>parse_hisat_report\<close> itself leaves it out.
\<close>

theorem hisat_report_drops_rank_3:
  "findall (''1 ranked A*01:01 (abundance: 55.50%)'' @ [NL] @
            ''3 ranked A*03:01 (abundance: 4.50%)'')
     = [(''1'', ''A'', ''01:01'', ''55.50''), (''3'', ''A'', ''03:01'', ''4.50'')] \<and>
   parse_hisat_report (''1 ranked A*01:01 (abundance: 55.50%)'' @ [NL] @
                       ''3 ranked A*03:01 (abundance: 4.50%)'')
     = Inr [(''A'', [\<lparr>rank = 1, allele = ''HLA-A*01:01'', abundance = 111 / 2\<rparr>])]"
proof -
  let ?t = "''1 ranked A*01:01 (abundance: 55.50%)'' @ [NL] @ ''3 ranked A*03:01 (abundance: 4.50%)''"
  have m: "findall ?t = [(''1'', ''A'', ''01:01'', ''55.50''), (''3'', ''A'', ''03:01'', ''4.50'')]"
    by (simp add: match_at_def isdigit_def gene_char_def isspace_def abundance_char_def Let_def)
  have h: "parse_hisat_report ?t
             = Inr [(''A'', [\<lparr>rank = 1, allele = ''HLA-A*01:01'', abundance = 111 / 2\<rparr>])]"
    unfolding parse_hisat_report_def m
    by (simp add: hisat_step_def float_of_def int_of_def digits_value_def int_max_str_digits_def
                  ensure_key_def append_at_def isdigit_def Let_def)
  from m h show ?thesis by (rule conjI)
qed

section \<open>Properties of the runs: samples without data, exit status\<close>

lemma merge_fold_documents:
  "fold_result (merge_sample env) out names = Inr out' \<Longrightarrow>
     map fst (snd out') = map fst (snd out) @ map (\<lambda>s. s @ ''_comparison.html'') names"
proof (induction names arbitrary: out)
  case Nil
  then show ?case by simp
next
  case (Cons n names)
  from Cons.prems obtain out1 where s: "merge_sample env out n = Inr out1"
      and r: "fold_result (merge_sample env) out1 names = Inr out'"
    by (cases "merge_sample env out n") auto
  from s have "map fst (snd out1) = map fst (snd out) @ [n @ ''_comparison.html'']"
    by (auto simp: merge_sample_def Let_def split: sum.splits)
  with Cons.IH[OF r] show ?case by simp
qed

lemma collect_fold_samples:
  "fold_result collect_step (msgs, data, samples) entries = Inr (msgs', data', samples') \<Longrightarrow>
     set samples' = set samples \<union>
       {s. \<exists>report others results. (s, Some (report # others)) \<in> set entries \<and>
             parse_report_file report = Inr results \<and> results \<noteq> []}"
proof (induction entries arbitrary: msgs data samples)
  case Nil
  then show ?case by simp
next
  case (Cons entry entries)
  from Cons.prems obtain st1 where s: "collect_step (msgs, data, samples) entry = Inr st1"
      and r: "fold_result collect_step st1 entries = Inr (msgs', data', samples')"
    by (cases "collect_step (msgs, data, samples) entry") auto
  obtain msgs1 data1 samples1 where st1: "st1 = (msgs1, data1, samples1)" by (rule prod_cases3)
  obtain name reports where entry: "entry = (name, reports)" by (cases entry)
  have one: "set samples1 = set samples \<union>
       {s. \<exists>report others results. (s, Some (report # others)) \<in> set [entry] \<and>
             parse_report_file report = Inr results \<and> results \<noteq> []}"
    using s unfolding st1 entry
    by (auto simp: collect_step_def split: option.splits list.splits sum.splits if_splits)
  from Cons.IH[OF r[unfolded st1]] one show ?case by auto
qed

lemma collect_fold_keys:
  "fold_result collect_step (msgs, data, samples) entries = Inr (msgs', data', samples') \<Longrightarrow>
     fst ` set data' = fst ` set data \<union>
       {s. \<exists>report others results. (s, Some (report # others)) \<in> set entries \<and>
             parse_report_file report = Inr results \<and> results \<noteq> []}"
proof (induction entries arbitrary: msgs data samples)
  case Nil
  then show ?case by simp
next
  case (Cons entry entries)
  from Cons.prems obtain st1 where s: "collect_step (msgs, data, samples) entry = Inr st1"
      and r: "fold_result collect_step st1 entries = Inr (msgs', data', samples')"
    by (cases "collect_step (msgs, data, samples) entry") auto
  obtain msgs1 data1 samples1 where st1: "st1 = (msgs1, data1, samples1)" by (rule prod_cases3)
  obtain name reports where entry: "entry = (name, reports)" by (cases entry)
  let ?K = "{s. \<exists>report others results. (s, Some (report # others)) \<in> set [entry] \<and>
             parse_report_file report = Inr results \<and> results \<noteq> []}"
  have "(data1 = data \<and> ?K = {}) \<or> (\<exists>results. data1 = AList.update name results data \<and> ?K = {name})"
    using s unfolding st1 entry
    by (auto simp: collect_step_def split: option.splits list.splits sum.splits if_splits)
  then have one: "fst ` set data1 = fst ` set data \<union> ?K"
  proof
    assume "data1 = data \<and> ?K = {}"
    then have d: "data1 = data" and k: "?K = {}" by blast+
    show ?thesis unfolding d k by (rule Un_empty_right[symmetric])
  next
    assume "\<exists>results. data1 = AList.update name results data \<and> ?K = {name}"
    then obtain results where d: "data1 = AList.update name results data" and k: "?K = {name}"
      by blast
    show ?thesis unfolding d k dom_update by blast
  qed
  from Cons.IH[OF r[unfolded st1]] one show ?case by auto
qed

text \<open>
  C2. In merge\_results.py a sample without any file is still a record:
  \<open>collect_sample_data\<close> returns the record of four empty results, and a run that ends
  normally has written one comparison document for every sample directory. In
  generate\_html\_table.py \<open>collect_all_results\<close> keeps exactly the samples whose
  directory has a report with at least one match: a sample without report, or whose
  report has no match, is in neither \<open>samples\<close> nor \<open>all_data\<close>.
\<close>

theorem samples_without_data:
  "collect_sample_data name
     \<lparr>hisat_reports = Some [], estimation_file = None, optitype_files = None, hlala_file = None\<rparr>
     = Inr \<lparr>sample = name, hisat = [], estimation = [], optitype = [], hlala = []\<rparr> \<and>
   (hisat_dir env = Directory dirs \<and> merge_results_main env = Inr (printed, docs) \<longrightarrow>
      map fst docs = map (\<lambda>s. s @ ''_comparison.html'') (sample_dirs dirs)) \<and>
   (collect_all_results (Directory entries) = Inr (msgs, Some (data, samples, genes)) \<longrightarrow>
      set samples = {s. \<exists>report others results.
                          (s, Some (report # others)) \<in> set entries \<and>
                          parse_report_file report = Inr results \<and> results \<noteq> []} \<and>
      set (map fst data) = set samples)"
proof -
  have one: "collect_sample_data name
     \<lparr>hisat_reports = Some [], estimation_file = None, optitype_files = None, hlala_file = None\<rparr>
     = Inr \<lparr>sample = name, hisat = [], estimation = [], optitype = [], hlala = []\<rparr>"
    by (simp add: collect_sample_data_def parse_optitype_result_def parse_hlala_result_def)
  have two: "hisat_dir env = Directory dirs \<and> merge_results_main env = Inr (printed, docs) \<longrightarrow>
      map fst docs = map (\<lambda>s. s @ ''_comparison.html'') (sample_dirs dirs)"
  proof
    assume a: "hisat_dir env = Directory dirs \<and> merge_results_main env = Inr (printed, docs)"
    then obtain out where
        f: "fold_result (merge_sample env) ([Processing_samples (length (sample_dirs dirs))], [])
              (sample_dirs dirs) = Inr out"
        and d: "docs = snd out"
      by (auto simp: merge_results_main_def Let_def split: sum.splits)
    from merge_fold_documents[OF f] d
    show "map fst docs = map (\<lambda>s. s @ ''_comparison.html'') (sample_dirs dirs)" by simp
  qed
  have three: "collect_all_results (Directory entries) = Inr (msgs, Some (data, samples, genes)) \<longrightarrow>
      set samples = {s. \<exists>report others results.
                          (s, Some (report # others)) \<in> set entries \<and>
                          parse_report_file report = Inr results \<and> results \<noteq> []} \<and>
      set (map fst data) = set samples"
  proof
    assume "collect_all_results (Directory entries) = Inr (msgs, Some (data, samples, genes))"
    then obtain samples0 where
        f: "fold_result collect_step ([], [], []) (sort_key fst entries) = Inr (msgs, data, samples0)"
        and s: "samples = sort samples0"
      by (auto simp: collect_all_results_def split: sum.splits)
    from collect_fold_samples[OF f] collect_fold_keys[OF f] s
    have "set samples = {s. \<exists>report others results.
                          (s, Some (report # others)) \<in> set entries \<and>
                          parse_report_file report = Inr results \<and> results \<noteq> []}"
      and "fst ` set data = {s. \<exists>report others results.
                          (s, Some (report # others)) \<in> set entries \<and>
                          parse_report_file report = Inr results \<and> results \<noteq> []}"
      by simp_all
    then show "set samples = {s. \<exists>report others results.
                          (s, Some (report # others)) \<in> set entries \<and>
                          parse_report_file report = Inr results \<and> results \<noteq> []} \<and>
      set (map fst data) = set samples"
      by simp
  qed
  from one two three show ?thesis by blast
qed


theorem samples_without_data_witness:
  "merge_results_main
     \<lparr>hisat_dir = Directory [(''S1'', Some [''1 ranked A*01:01 (abundance: 55.50%)'']), (''S2'', Some [])],
      estimation_dir = [], optitype_dir = [], hlala_dir = []\<rparr>
   = Inr ([Processing_samples 2, Processing ''S1'', Generated ''S1_comparison.html'',
           Processing ''S2'', Generated ''S2_comparison.html'', Done_comparison 2],
          [(''S1_comparison.html'',
            [\<lparr>row_gene = ''A'', optitype_cell = No_data, hlala_cell = No_data,
              estimation_cell = No_data,
              hisat_cell = Alleles [\<lparr>rank = 1, allele = ''HLA-A*01:01'', abundance = 111 / 2\<rparr>]\<rparr>]),
           (''S2_comparison.html'', [])]) \<and>
   map (\<lambda>s. s @ ''_comparison.html'')
     (sample_dirs [(''S1'', Some [''1 ranked A*01:01 (abundance: 55.50%)'']), (''S2'', Some [])])
   = [''S1_comparison.html'', ''S2_comparison.html''] \<and>
   {s. \<exists>report others results.
         (s, Some (report # others))
           \<in> set [(''S1'', Some [''1 ranked A*01:01 (abundance: 55.50%)'']), (''S2'', Some [])] \<and>
         parse_report_file report = Inr results \<and> results \<noteq> []} = set [''S1'']"
proof -
  let ?entries = "[(''S1'', Some [''1 ranked A*01:01 (abundance: 55.50%)'']), (''S2'', Some [])]"
  let ?env = "\<lparr>hisat_dir = Directory ?entries, estimation_dir = [], optitype_dir = [], hlala_dir = []\<rparr>"
  let ?printed = "[Processing_samples 2, Processing ''S1'', Generated ''S1_comparison.html'',
           Processing ''S2'', Generated ''S2_comparison.html'', Done_comparison 2]"
  let ?docs = "[(''S1_comparison.html'',
            [\<lparr>row_gene = ''A'', optitype_cell = No_data, hlala_cell = No_data,
              estimation_cell = No_data,
              hisat_cell = Alleles [\<lparr>rank = 1, allele = ''HLA-A*01:01'', abundance = 111 / 2\<rparr>]\<rparr>]),
           (''S2_comparison.html'', [])]"
  let ?data = "[(''S1'', [(''A'', [\<lparr>rank = 1, allele = ''01:01'', abundance = 111 / 2\<rparr>])])]"
  have m: "findall ''1 ranked A*01:01 (abundance: 55.50%)'' = [(''1'', ''A'', ''01:01'', ''55.50'')]"
    by (simp add: match_at_def isdigit_def gene_char_def isspace_def abundance_char_def Let_def)
  have h: "parse_hisat_report ''1 ranked A*01:01 (abundance: 55.50%)''
             = Inr [(''A'', [\<lparr>rank = 1, allele = ''HLA-A*01:01'', abundance = 111 / 2\<rparr>])]"
    unfolding parse_hisat_report_def m
    by (simp add: hisat_step_def float_of_def int_of_def digits_value_def int_max_str_digits_def
                  ensure_key_def append_at_def
                  isdigit_def Let_def)
  have p: "parse_report_file ''1 ranked A*01:01 (abundance: 55.50%)''
             = Inr [(''A'', [\<lparr>rank = 1, allele = ''01:01'', abundance = 111 / 2\<rparr>])]"
    unfolding parse_report_file_def m
    by (simp add: report_step_def float_of_def int_of_def digits_value_def int_max_str_digits_def
                  ensure_key_def append_at_def
                  isdigit_def Let_def)
  have d: "sample_dirs ?entries = [''S1'', ''S2'']"
    by (simp add: sample_dirs_def)
  have e1: "merge_results_main ?env = Inr (?printed, ?docs)"
    unfolding merge_results_main_def
    by (simp add: d merge_sample_def sample_files_of_def collect_sample_data_def h
                  parse_optitype_result_def parse_hlala_result_def generate_sample_html_def
                  all_genes_of_def method_cell_def Let_def)
  have e2: "collect_all_results (Directory ?entries)
              = Inr ([Warning_no_report ''S2''], Some (?data, [''S1''], [''A'']))"
    by (simp add: collect_all_results_def collect_step_def p genes_of_def)
  from samples_without_data[where env = ?env and dirs = ?entries and printed = ?printed
                              and docs = ?docs and entries = ?entries
                              and msgs = "[Warning_no_report ''S2'']" and data = ?data
                              and samples = "[''S1'']" and genes = "[''A'']"]
       e1 e2 d
  show ?thesis by simp
qed

text \<open>
  The scenario of two samples, S1 with one match and S2 without files: the corpus of
  generate\_html\_table.py has one sample.
\<close>

theorem table_corpus_omits_sample_without_files:
  "collect_all_results
     (Directory [(''S1'', Some [''1 ranked A*01:01 (abundance: 55.50%)'']), (''S2'', Some [])])
   = Inr ([Warning_no_report ''S2''],
          Some ([(''S1'', [(''A'', [\<lparr>rank = 1, allele = ''01:01'', abundance = 111 / 2\<rparr>])])],
                [''S1''], [''A'']))"
proof -
  have m: "findall ''1 ranked A*01:01 (abundance: 55.50%)'' = [(''1'', ''A'', ''01:01'', ''55.50'')]"
    by (simp add: match_at_def isdigit_def gene_char_def isspace_def abundance_char_def Let_def)
  have p: "parse_report_file ''1 ranked A*01:01 (abundance: 55.50%)''
             = Inr [(''A'', [\<lparr>rank = 1, allele = ''01:01'', abundance = 111 / 2\<rparr>])]"
    unfolding parse_report_file_def m
    by (simp add: report_step_def float_of_def int_of_def digits_value_def int_max_str_digits_def
                  ensure_key_def append_at_def
                  isdigit_def Let_def)
  show ?thesis
    by (simp add: collect_all_results_def collect_step_def p genes_of_def)
qed

lemma exit_status_0: "exit_status r = 0 \<longleftrightarrow> (\<exists>out. r = Inr out)"
  by (cases r) (simp_all add: exit_status_def)

lemma merge_sample_returns:
  "(\<exists>out'. merge_sample env out n = Inr out') \<longleftrightarrow>
     (\<exists>data. collect_sample_data n (sample_files_of env n) = Inr data)"
  by (cases "collect_sample_data n (sample_files_of env n)") (simp_all add: merge_sample_def Let_def)

lemma merge_main_returns:
  assumes "hisat_dir env = Directory entries"
  shows "(\<exists>out. merge_results_main env = Inr out) \<longleftrightarrow>
           (\<forall>n \<in> set (sample_dirs entries).
              \<exists>data. collect_sample_data n (sample_files_of env n) = Inr data)"
proof -
  let ?start = "([Processing_samples (length (sample_dirs entries))], [])"
  have "(\<exists>out. merge_results_main env = Inr out) \<longleftrightarrow>
          (\<exists>out. fold_result (merge_sample env) ?start (sample_dirs entries) = Inr out)"
    by (cases "fold_result (merge_sample env) ?start (sample_dirs entries)")
       (simp_all add: merge_results_main_def assms Let_def)
  also have "\<dots> \<longleftrightarrow> (\<forall>n \<in> set (sample_dirs entries).
              \<exists>data. collect_sample_data n (sample_files_of env n) = Inr data)"
    by (rule fold_result_returns_iff) (rule merge_sample_returns)
  finally show ?thesis .
qed

lemma collect_sample_data_returns:
  "(\<exists>data. collect_sample_data name fs = Inr data) \<longleftrightarrow>
     (\<forall>report others. hisat_reports fs = Some (report # others) \<longrightarrow>
                       (\<exists>res. parse_hisat_report report = Inr res)) \<and>
     (\<exists>res. parse_optitype_result (optitype_files fs) = Inr res)"
  by (auto simp: collect_sample_data_def split: option.splits list.splits sum.splits)

lemma collect_step_returns:
  "(\<exists>st'. collect_step st entry = Inr st') \<longleftrightarrow>
     (\<forall>report others. snd entry = Some (report # others) \<longrightarrow>
                       (\<exists>res. parse_report_file report = Inr res))"
proof -
  obtain msgs data samples where st: "st = (msgs, data, samples)" by (rule prod_cases3)
  obtain name reports where entry: "entry = (name, reports)" by (cases entry)
  show ?thesis
    unfolding st entry
    by (auto simp: collect_step_def split: option.splits list.splits sum.splits)
qed

lemma table_main_returns:
  "(\<exists>out. generate_html_table_main (Directory entries) = Inr out) \<longleftrightarrow>
     (\<forall>entry \<in> set entries. \<forall>report others.
        snd entry = Some (report # others) \<longrightarrow> (\<exists>res. parse_report_file report = Inr res))"
proof -
  have "(\<exists>out. generate_html_table_main (Directory entries) = Inr out) \<longleftrightarrow>
          (\<exists>st. fold_result collect_step ([], [], []) (sort_key fst entries) = Inr st)"
  proof (cases "fold_result collect_step ([], [], []) (sort_key fst entries)")
    case (Inl e)
    then show ?thesis by (simp add: generate_html_table_main_def collect_all_results_def)
  next
    case (Inr st)
    obtain msgs data samples where st: "st = (msgs, data, samples)" by (rule prod_cases3)
    have c: "collect_all_results (Directory entries)
               = Inr (msgs, Some (data, sort samples, genes_of data))"
      by (simp add: collect_all_results_def Inr st)
    have "\<exists>out. generate_html_table_main (Directory entries) = Inr out"
      unfolding generate_html_table_main_def c
      by (cases "generate_html_table data (sort samples) (genes_of data)") simp
    with Inr show ?thesis by blast
  qed
  also have "\<dots> \<longleftrightarrow> (\<forall>entry \<in> set (sort_key fst entries). \<forall>report others.
        snd entry = Some (report # others) \<longrightarrow> (\<exists>res. parse_report_file report = Inr res))"
    by (rule fold_result_returns_iff) (rule collect_step_returns)
  finally show ?thesis by simp
qed

text \<open>
  C4. When the input root does not exist, each script prints its error message,
  processes no sample and writes no document, and \<open>main\<close> returns: the exit status is
  0, as for a successful run. When the root exists and is no directory, listing it
  raises and the exit status is 1. When the root is a directory, merge\_results.py
  ends with status 0 exactly when \<open>collect_sample_data\<close> returns for every sample
  directory, which it does exactly when the first HISAT report of the sample, if any,
  and its OptiType file, if any, are parsed without an exception;
  generate\_html\_table.py ends with status 0 exactly when the first report of every
  sample directory is parsed without an exception. What a sample contributes plays no
  part: a sample directory without files raises nothing.
\<close>

theorem exit_status_of_runs:
  "merge_results_main (env\<lparr>hisat_dir := Missing\<rparr>) = Inr ([Error_not_found], []) \<and>
   generate_html_table_main Missing
     = Inr ([Parsing_results, Error_directory_missing, No_data_found], None) \<and>
   exit_status (merge_results_main (env\<lparr>hisat_dir := Missing\<rparr>)) = 0 \<and>
   exit_status (generate_html_table_main Missing) = 0 \<and>
   exit_status (merge_results_main (env\<lparr>hisat_dir := Not_a_directory\<rparr>)) = 1 \<and>
   exit_status (generate_html_table_main Not_a_directory) = 1 \<and>
   (exit_status (merge_results_main (env\<lparr>hisat_dir := Directory entries\<rparr>)) = 0 \<longleftrightarrow>
      (\<forall>n \<in> set (sample_dirs entries).
         \<exists>data. collect_sample_data n
                  (sample_files_of (env\<lparr>hisat_dir := Directory entries\<rparr>) n) = Inr data)) \<and>
   ((\<exists>data. collect_sample_data name fs = Inr data) \<longleftrightarrow>
      (\<forall>report others. hisat_reports fs = Some (report # others) \<longrightarrow>
                        (\<exists>res. parse_hisat_report report = Inr res)) \<and>
      (\<exists>res. parse_optitype_result (optitype_files fs) = Inr res)) \<and>
   collect_sample_data name
     \<lparr>hisat_reports = Some [], estimation_file = None, optitype_files = None, hlala_file = None\<rparr>
     = Inr \<lparr>sample = name, hisat = [], estimation = [], optitype = [], hlala = []\<rparr> \<and>
   (exit_status (generate_html_table_main (Directory entries)) = 0 \<longleftrightarrow>
      (\<forall>entry \<in> set entries. \<forall>report others.
         snd entry = Some (report # others) \<longrightarrow> (\<exists>res. parse_report_file report = Inr res)))"
proof -
  have a: "merge_results_main (env\<lparr>hisat_dir := Missing\<rparr>) = Inr ([Error_not_found], [])"
    by (simp add: merge_results_main_def)
  have b: "generate_html_table_main Missing
             = Inr ([Parsing_results, Error_directory_missing, No_data_found], None)"
    by (simp add: generate_html_table_main_def collect_all_results_def)
  from a b have a0: "exit_status (merge_results_main (env\<lparr>hisat_dir := Missing\<rparr>)) = 0"
    and b0: "exit_status (generate_html_table_main Missing) = 0"
    by (simp_all add: exit_status_def)
  have c: "exit_status (merge_results_main (env\<lparr>hisat_dir := Not_a_directory\<rparr>)) = 1"
    by (simp add: merge_results_main_def exit_status_def)
  have d: "exit_status (generate_html_table_main Not_a_directory) = 1"
    by (simp add: generate_html_table_main_def collect_all_results_def exit_status_def)
  have e: "exit_status (merge_results_main (env\<lparr>hisat_dir := Directory entries\<rparr>)) = 0 \<longleftrightarrow>
      (\<forall>n \<in> set (sample_dirs entries).
         \<exists>data. collect_sample_data n
                  (sample_files_of (env\<lparr>hisat_dir := Directory entries\<rparr>) n) = Inr data)"
    unfolding exit_status_0 by (rule merge_main_returns) simp
  have f: "(\<exists>data. collect_sample_data name fs = Inr data) \<longleftrightarrow>
      (\<forall>report others. hisat_reports fs = Some (report # others) \<longrightarrow>
                        (\<exists>res. parse_hisat_report report = Inr res)) \<and>
      (\<exists>res. parse_optitype_result (optitype_files fs) = Inr res)"
    by (rule collect_sample_data_returns)
  have g: "collect_sample_data name
     \<lparr>hisat_reports = Some [], estimation_file = None, optitype_files = None, hlala_file = None\<rparr>
     = Inr \<lparr>sample = name, hisat = [], estimation = [], optitype = [], hlala = []\<rparr>"
    by (simp add: collect_sample_data_def parse_optitype_result_def parse_hlala_result_def)
  have h: "exit_status (generate_html_table_main (Directory entries)) = 0 \<longleftrightarrow>
      (\<forall>entry \<in> set entries. \<forall>report others.
         snd entry = Some (report # others) \<longrightarrow> (\<exists>res. parse_report_file report = Inr res))"
    unfolding exit_status_0 by (rule table_main_returns)
  from a b a0 b0 c d e f g h show ?thesis by blast
qed

theorem exit_status_of_runs_witness:
  "exit_status (merge_results_main
      \<lparr>hisat_dir = Directory [(''S1'', Some [''1 ranked A*01:01 (abundance: 55.50%)'']),
                              (''S2'', Some [])],
       estimation_dir = [], optitype_dir = [], hlala_dir = []\<rparr>) = 0 \<and>
   exit_status (generate_html_table_main
      (Directory [(''S1'', Some [''1 ranked A*01:01 (abundance: 55.50%)'']), (''S2'', Some [])])) = 0 \<and>
   exit_status (merge_results_main
      \<lparr>hisat_dir = Not_a_directory, estimation_dir = [], optitype_dir = [], hlala_dir = []\<rparr>) = 1 \<and>
   exit_status (generate_html_table_main
      (Directory [(''S1'', Some [''1 ranked A*01:01 (abundance: 1.2.3%)''])])) = 1"
proof -
  let ?entries = "[(''S1'', Some [''1 ranked A*01:01 (abundance: 55.50%)'']), (''S2'', Some [])]"
  let ?bad = "[(''S1'', Some [''1 ranked A*01:01 (abundance: 1.2.3%)''])]"
  let ?env = "\<lparr>hisat_dir = Missing, estimation_dir = [], optitype_dir = [], hlala_dir = []\<rparr>"
  let ?fs = "\<lparr>hisat_reports = Some [''1 ranked A*01:01 (abundance: 55.50%)''],
              estimation_file = None, optitype_files = None, hlala_file = None\<rparr>"
  have m: "findall ''1 ranked A*01:01 (abundance: 55.50%)'' = [(''1'', ''A'', ''01:01'', ''55.50'')]"
    by (simp add: match_at_def isdigit_def gene_char_def isspace_def abundance_char_def Let_def)
  have h: "parse_hisat_report ''1 ranked A*01:01 (abundance: 55.50%)''
             = Inr [(''A'', [\<lparr>rank = 1, allele = ''HLA-A*01:01'', abundance = 111 / 2\<rparr>])]"
    unfolding parse_hisat_report_def m
    by (simp add: hisat_step_def float_of_def int_of_def digits_value_def int_max_str_digits_def
                  ensure_key_def append_at_def isdigit_def Let_def)
  have p: "parse_report_file ''1 ranked A*01:01 (abundance: 55.50%)''
             = Inr [(''A'', [\<lparr>rank = 1, allele = ''01:01'', abundance = 111 / 2\<rparr>])]"
    unfolding parse_report_file_def m
    by (simp add: report_step_def float_of_def int_of_def digits_value_def int_max_str_digits_def
                  ensure_key_def append_at_def isdigit_def Let_def)
  have mb: "findall ''1 ranked A*01:01 (abundance: 1.2.3%)'' = [(''1'', ''A'', ''01:01'', ''1.2.3'')]"
    by (simp add: match_at_def isdigit_def gene_char_def isspace_def abundance_char_def Let_def)
  have pb: "parse_report_file ''1 ranked A*01:01 (abundance: 1.2.3%)'' = Inl ValueError"
    unfolding parse_report_file_def mb
    by (simp add: report_step_def float_of_def int_of_def digits_value_def int_max_str_digits_def
                  ensure_key_def append_at_def isdigit_def Let_def)
  have d: "sample_dirs ?entries = [''S1'', ''S2'']"
    by (simp add: sample_dirs_def)
  have o: "parse_optitype_result None = Inr []"
    by (simp add: parse_optitype_result_def)
  have s1: "\<exists>data. collect_sample_data ''S1''
                     (sample_files_of (?env\<lparr>hisat_dir := Directory ?entries\<rparr>) ''S1'') = Inr data"
    unfolding collect_sample_data_returns by (simp add: sample_files_of_def h o)
  have s2: "\<exists>data. collect_sample_data ''S2''
                     (sample_files_of (?env\<lparr>hisat_dir := Directory ?entries\<rparr>) ''S2'') = Inr data"
    unfolding collect_sample_data_returns by (simp add: sample_files_of_def o)
  have hh: "\<forall>n \<in> set (sample_dirs ?entries).
              \<exists>data. collect_sample_data n
                       (sample_files_of (?env\<lparr>hisat_dir := Directory ?entries\<rparr>) n) = Inr data"
    unfolding d using s1 s2 by simp
  have hp: "\<forall>entry \<in> set ?entries. \<forall>report others.
              snd entry = Some (report # others) \<longrightarrow> (\<exists>res. parse_report_file report = Inr res)"
    using p by simp
  have hb: "\<not> (\<forall>entry \<in> set ?bad. \<forall>report others.
              snd entry = Some (report # others) \<longrightarrow> (\<exists>res. parse_report_file report = Inr res))"
    using pb by simp
  have x: "exit_status (generate_html_table_main (Directory ?bad)) \<noteq> 0"
    using exit_status_of_runs[of ?env ?bad] hb by blast
  have y: "exit_status (generate_html_table_main (Directory ?bad)) = 1"
    using x by (cases "generate_html_table_main (Directory ?bad)") (simp_all add: exit_status_def)
  from exit_status_of_runs[of ?env ?entries] hh hp
  have "exit_status (merge_results_main (?env\<lparr>hisat_dir := Directory ?entries\<rparr>)) = 0"
    and "exit_status (generate_html_table_main (Directory ?entries)) = 0"
    and "exit_status (merge_results_main (?env\<lparr>hisat_dir := Not_a_directory\<rparr>)) = 1"
    by blast+
  with y show ?thesis by simp
qed

text \<open>The two scripts on a missing root: \<open>main\<close> returns and the exit status is 0.\<close>

theorem missing_root_exits_0:
  "exit_status (merge_results_main
      \<lparr>hisat_dir = Missing, estimation_dir = [], optitype_dir = [], hlala_dir = []\<rparr>) = 0 \<and>
   exit_status (generate_html_table_main Missing) = 0"
  by (simp add: exit_status_def merge_results_main_def generate_html_table_main_def
                collect_all_results_def)

end
